theory Spec2Isabelle
  imports Complex_Main "HOL-Library.Multiset"
begin

section \<open>Failure registry (crawler\_light/tools/failed\_journals\_manager.py)\<close>

text \<open>
  \<^verbatim>\<open>FailedJournalsManager\<close> keeps a JSON file holding a list of records. The file is
  the only state: every method loads the list, changes it and writes it back. The file
  is modelled as an optional list (\<open>None\<close>: the file does not exist, which
  \<^verbatim>\<open>_load_failed_journals\<close> reads as the empty list). Reading and writing an existing
  file are taken to succeed. The current time enters as the ISO string \<open>now\<close>.
\<close>

record failed_record =
  journal_name :: string
  url :: string
  reason :: string
  failed_time :: string
  retry_count :: int
  last_retry :: "string option"

type_synonym failed_file = "failed_record list option"

definition load_failed_journals :: "failed_file \<Rightarrow> failed_record list" where
  "load_failed_journals f = (case f of None \<Rightarrow> [] | Some rs \<Rightarrow> rs)"

definition save_failed_journals :: "failed_record list \<Rightarrow> failed_file" where
  "save_failed_journals rs = Some rs"

definition get_failed_journals :: "failed_file \<Rightarrow> failed_record list" where
  "get_failed_journals f = load_failed_journals f"

text \<open>
  \<^verbatim>\<open>add_failed_journal\<close>: the first record of that name is updated in place
  (reason, time, \<open>retry_count += 1\<close>); without one a fresh record is appended.
\<close>

fun update_existing :: "string \<Rightarrow> string \<Rightarrow> string \<Rightarrow> failed_record list \<Rightarrow> failed_record list" where
  "update_existing name rsn now [] = []"
| "update_existing name rsn now (r # rs) =
     (if journal_name r = name
      then r\<lparr>reason := rsn, failed_time := now, retry_count := retry_count r + 1\<rparr> # rs
      else r # update_existing name rsn now rs)"

definition add_failed_journal :: "string \<Rightarrow> string \<Rightarrow> string \<Rightarrow> string \<Rightarrow> failed_file \<Rightarrow> failed_file" where
  "add_failed_journal name u rsn now f =
     (let failed_record = \<lparr>journal_name = name, url = u, reason = rsn, failed_time = now,
                           retry_count = 0, last_retry = None\<rparr>;
          failed_journals = load_failed_journals f
      in if \<exists>r \<in> set failed_journals. journal_name r = name
         then save_failed_journals (update_existing name rsn now failed_journals)
         else save_failed_journals (failed_journals @ [failed_record]))"

text \<open>
  \<^verbatim>\<open>remove_successful_journal\<close>: every record of that name is filtered out; the file
  is rewritten only when the list became shorter.
\<close>

definition remove_successful_journal :: "string \<Rightarrow> failed_file \<Rightarrow> failed_file" where
  "remove_successful_journal name f =
     (let failed_journals = load_failed_journals f;
          updated_journals = filter (\<lambda>journal. journal_name journal \<noteq> name) failed_journals
      in if length updated_journals < length failed_journals
         then save_failed_journals updated_journals
         else f)"

text \<open>
  \<^verbatim>\<open>update_retry_info\<close>: the loop stops (\<^verbatim>\<open>break\<close>) at the first record of that
  name, after \<open>retry_count += 1\<close> and \<open>last_retry = now\<close>; the list is always written back.
\<close>

fun touch_first :: "string \<Rightarrow> string \<Rightarrow> failed_record list \<Rightarrow> failed_record list" where
  "touch_first name now [] = []"
| "touch_first name now (r # rs) =
     (if journal_name r = name
      then r\<lparr>retry_count := retry_count r + 1, last_retry := Some now\<rparr> # rs
      else r # touch_first name now rs)"

definition update_retry_info :: "string \<Rightarrow> string \<Rightarrow> failed_file \<Rightarrow> failed_file" where
  "update_retry_info name now f =
     save_failed_journals (touch_first name now (load_failed_journals f))"

text \<open>
  One round of \<^verbatim>\<open>CellParser.retry_failed_journals\<close> for one recorded journal: the retry
  information is updated first, the journal is crawled again, and the record is removed
  only when the crawl returned articles (\<open>got_articles\<close>).
\<close>

definition retry_failed_journal :: "string \<Rightarrow> string \<Rightarrow> bool \<Rightarrow> failed_file \<Rightarrow> failed_file" where
  "retry_failed_journal name now got_articles f =
     (let f1 = update_retry_info name now f
      in if got_articles then remove_successful_journal name f1 else f1)"

definition others :: "string \<Rightarrow> failed_record list \<Rightarrow> failed_record list" where
  "others name rs = filter (\<lambda>r. journal_name r \<noteq> name) rs"

definition record_of :: "string \<Rightarrow> failed_record list \<Rightarrow> failed_record option" where
  "record_of name rs = find (\<lambda>r. journal_name r = name) rs"

subsection \<open>Properties of the registry\<close>

lemma others_touch_first: "others name (touch_first name now rs) = others name rs"
  by (induction rs) (simp_all add: others_def)

lemma record_of_touch_first:
  "record_of name (touch_first name now rs) =
   map_option (\<lambda>r. r\<lparr>retry_count := retry_count r + 1, last_retry := Some now\<rparr>) (record_of name rs)"
  by (induction rs) (simp_all add: record_of_def)

lemma record_of_touch_first_other:
  "other \<noteq> name \<Longrightarrow> record_of other (touch_first name now rs) = record_of other rs"
  by (induction rs) (simp_all add: record_of_def)

lemma length_touch_first: "length (touch_first name now rs) = length rs"
  by (induction rs) simp_all

lemma names_touch_first: "map journal_name (touch_first name now rs) = map journal_name rs"
  by (induction rs) simp_all

lemma load_remove:
  "load_failed_journals (remove_successful_journal name f) = others name (load_failed_journals f)"
proof (cases "length (others name (load_failed_journals f)) < length (load_failed_journals f)")
  case True
  then show ?thesis
    by (simp add: remove_successful_journal_def others_def save_failed_journals_def
        load_failed_journals_def)
next
  case False
  have "length (others name (load_failed_journals f)) \<le> length (load_failed_journals f)"
    by (simp add: others_def)
  with False have "length (others name (load_failed_journals f)) = length (load_failed_journals f)"
    by simp
  then have same: "others name (load_failed_journals f) = load_failed_journals f"
    unfolding others_def by (metis filter_True length_filter_less linorder_not_less order_refl)
  from False have "remove_successful_journal name f = f"
    by (simp add: remove_successful_journal_def others_def Let_def)
  with same show ?thesis by simp
qed

lemma load_update:
  "load_failed_journals (update_retry_info name now f) = touch_first name now (load_failed_journals f)"
  by (simp add: update_retry_info_def save_failed_journals_def load_failed_journals_def)

lemma record_of_others_self: "record_of name (others name rs) = None"
  by (induction rs) (simp_all add: record_of_def others_def)

lemma others_idem: "others name (others name rs) = others name rs"
  by (simp add: others_def)

lemma record_of_others_other:
  "other \<noteq> name \<Longrightarrow> record_of other (others name rs) = record_of other rs"
  by (induction rs) (simp_all add: record_of_def others_def)

lemma record_of_Some_iff: "(\<exists>r. record_of name rs = Some r) \<longleftrightarrow> name \<in> journal_name ` set rs"
  by (induction rs) (auto simp: record_of_def)

lemma registry_remove:
  "record_of name (get_failed_journals (remove_successful_journal name f)) = None"
  "others name (get_failed_journals (remove_successful_journal name f)) =
   others name (get_failed_journals f)"
  "other \<noteq> name \<Longrightarrow>
   record_of other (get_failed_journals (remove_successful_journal name f)) =
   record_of other (get_failed_journals f)"
  by (simp_all add: get_failed_journals_def load_remove record_of_others_self others_idem
      record_of_others_other)

lemma registry_update:
  "record_of name (get_failed_journals (update_retry_info name now f)) =
   map_option (\<lambda>r. r\<lparr>retry_count := retry_count r + 1, last_retry := Some now\<rparr>)
     (record_of name (get_failed_journals f))"
  "others name (get_failed_journals (update_retry_info name now f)) =
   others name (get_failed_journals f)"
  "other \<noteq> name \<Longrightarrow>
   record_of other (get_failed_journals (update_retry_info name now f)) =
   record_of other (get_failed_journals f)"
  by (simp_all add: get_failed_journals_def load_update record_of_touch_first
      others_touch_first record_of_touch_first_other)

lemma registry_retry_success:
  "get_failed_journals (retry_failed_journal name now True f) =
   get_failed_journals (remove_successful_journal name (update_retry_info name now f))"
  by (simp add: retry_failed_journal_def)

lemma registry_retry_failure:
  "get_failed_journals (retry_failed_journal name now False f) =
   get_failed_journals (update_retry_info name now f)"
  by (simp add: retry_failed_journal_def)

text \<open>A journal just recorded as failed is listed, with the reason given.\<close>

lemma record_of_update_existing:
  "record_of name (update_existing name rsn now rs) =
   map_option (\<lambda>r. r\<lparr>reason := rsn, failed_time := now, retry_count := retry_count r + 1\<rparr>)
     (record_of name rs)"
  by (induction rs) (simp_all add: record_of_def)

lemma record_of_append_new:
  "name \<notin> journal_name ` set rs \<Longrightarrow> journal_name r = name \<Longrightarrow> record_of name (rs @ [r]) = Some r"
  by (induction rs) (auto simp: record_of_def)

lemma load_add:
  "load_failed_journals (add_failed_journal name u rsn now f) =
     (if name \<in> journal_name ` set (load_failed_journals f)
      then update_existing name rsn now (load_failed_journals f)
      else load_failed_journals f @
        [\<lparr>journal_name = name, url = u, reason = rsn, failed_time = now,
          retry_count = 0, last_retry = None\<rparr>])"
proof -
  have "(\<exists>r \<in> set (load_failed_journals f). journal_name r = name) \<longleftrightarrow>
      name \<in> journal_name ` set (load_failed_journals f)"
    by auto
  then show ?thesis
    unfolding add_failed_journal_def Let_def
    by (simp add: save_failed_journals_def load_failed_journals_def [of "Some _"])
qed

lemma add_failed_journal_listed:
  "\<exists>r. record_of name (get_failed_journals (add_failed_journal name u rsn now f)) = Some r
       \<and> reason r = rsn \<and> failed_time r = now"
proof (cases "name \<in> journal_name ` set (load_failed_journals f)")
  case True
  then obtain r0 where "record_of name (load_failed_journals f) = Some r0"
    using record_of_Some_iff [of name "load_failed_journals f"] by auto
  with True show ?thesis
    by (simp add: get_failed_journals_def load_add record_of_update_existing)
next
  case False
  with record_of_append_new [OF False, of "\<lparr>journal_name = name, url = u, reason = rsn,
      failed_time = now, retry_count = 0, last_retry = None\<rparr>"]
  show ?thesis
    by (simp add: get_failed_journals_def load_add)
qed

definition example_registry :: failed_file where
  "example_registry = Some
     [\<lparr>journal_name = ''Cell'', url = ''https://www.cell.com/cell/home'', reason = ''Forbidden'',
       failed_time = ''2025-09-01T08:00:00'', retry_count = 0, last_retry = None\<rparr>,
      \<lparr>journal_name = ''Joule'', url = ''https://www.cell.com/joule/home'', reason = ''Timeout'',
       failed_time = ''2025-09-01T08:05:00'', retry_count = 2, last_retry = Some ''2025-09-02T08:00:00''\<rparr>]"

text \<open>
  C9. For a journal with a record in the registry: after a successful retry no record of
  that name is listed; after an unsuccessful retry its record is still listed, with
  \<open>retry_count\<close> one higher and \<open>last_retry\<close> set to the time of the retry; the records
  of all other journals are the same, in the same order, after either operation. This
  holds of the two registry methods (\<^verbatim>\<open>remove_successful_journal\<close>,
  \<^verbatim>\<open>update_retry_info\<close>) and of the retry round that calls them.
\<close>

theorem failure_registry_lifecycle:
  assumes "record_of name (get_failed_journals f) = Some r"
  shows "record_of name (get_failed_journals (remove_successful_journal name f)) = None
       \<and> name \<notin> journal_name ` set (get_failed_journals (remove_successful_journal name f))
       \<and> others name (get_failed_journals (remove_successful_journal name f)) =
           others name (get_failed_journals f)
       \<and> record_of name (get_failed_journals (update_retry_info name now f)) =
           Some (r\<lparr>retry_count := retry_count r + 1, last_retry := Some now\<rparr>)
       \<and> others name (get_failed_journals (update_retry_info name now f)) =
           others name (get_failed_journals f)
       \<and> record_of name (get_failed_journals (retry_failed_journal name now True f)) = None
       \<and> record_of name (get_failed_journals (retry_failed_journal name now False f)) =
           Some (r\<lparr>retry_count := retry_count r + 1, last_retry := Some now\<rparr>)
       \<and> others name (get_failed_journals (retry_failed_journal name now ok f)) =
           others name (get_failed_journals f)
       \<and> (\<forall>other. other \<noteq> name \<longrightarrow>
             record_of other (get_failed_journals (retry_failed_journal name now ok f)) =
             record_of other (get_failed_journals f))"
proof -
  have absent: "name \<notin> journal_name ` set (get_failed_journals (remove_successful_journal name f))"
    using record_of_Some_iff [of name "get_failed_journals (remove_successful_journal name f)"]
    by (simp add: registry_remove(1))
  have upd: "record_of name (get_failed_journals (update_retry_info name now f)) =
      Some (r\<lparr>retry_count := retry_count r + 1, last_retry := Some now\<rparr>)"
    using assms by (simp add: registry_update(1))
  have oth: "others name (get_failed_journals (retry_failed_journal name now ok f)) =
      others name (get_failed_journals f)"
    by (cases ok)
      (simp_all add: registry_retry_success registry_retry_failure registry_remove(2)
        registry_update(2))
  have rec: "record_of other (get_failed_journals (retry_failed_journal name now ok f)) =
      record_of other (get_failed_journals f)" if "other \<noteq> name" for other
    using that
    by (cases ok)
      (simp_all add: registry_retry_success registry_retry_failure registry_remove(3)
        registry_update(3))
  show ?thesis
    using absent upd oth rec
    by (simp add: registry_remove registry_update registry_retry_success
        registry_retry_failure)
qed

theorem failure_registry_lifecycle_witness:
  "record_of ''Cell'' (get_failed_journals example_registry) =
     Some \<lparr>journal_name = ''Cell'', url = ''https://www.cell.com/cell/home'',
           reason = ''Forbidden'', failed_time = ''2025-09-01T08:00:00'', retry_count = 0,
           last_retry = None\<rparr>
   \<and> record_of ''Cell'' (get_failed_journals
         (retry_failed_journal ''Cell'' ''2025-09-03T08:00:00'' True example_registry)) = None
   \<and> record_of ''Cell'' (get_failed_journals
         (retry_failed_journal ''Cell'' ''2025-09-03T08:00:00'' False example_registry)) =
     Some \<lparr>journal_name = ''Cell'', url = ''https://www.cell.com/cell/home'',
           reason = ''Forbidden'', failed_time = ''2025-09-01T08:00:00'', retry_count = 1,
           last_retry = Some ''2025-09-03T08:00:00''\<rparr>"
proof -
  have h: "record_of ''Cell'' (get_failed_journals example_registry) =
     Some \<lparr>journal_name = ''Cell'', url = ''https://www.cell.com/cell/home'',
           reason = ''Forbidden'', failed_time = ''2025-09-01T08:00:00'', retry_count = 0,
           last_retry = None\<rparr>"
    by (simp add: record_of_def get_failed_journals_def load_failed_journals_def
        example_registry_def)
  show ?thesis
    using h failure_registry_lifecycle [OF h, of "''2025-09-03T08:00:00''" True]
    by simp
qed


section \<open>Consensus classification (main\_backward.py, main\_forward.py, crawler\_light/main.py)\<close>

text \<open>
  An item is one \<^verbatim>\<open>card_infos\<close> dictionary. \<open>date\<close> is the publication date as a day
  number, \<open>None\<close> when the parser found none. An optional field is \<open>None\<close> when the
  dictionary has no such key: main\_forward.py and crawler\_light/main.py store the
  address under \<^verbatim>\<open>'link'\<close> only, main\_backward.py under \<^verbatim>\<open>'link'\<close> and \<^verbatim>\<open>'url'\<close>,
  \<^verbatim>\<open>NatureParser.scrape_journal\<close> under \<^verbatim>\<open>'url'\<close> only, together with a \<^verbatim>\<open>'journal'\<close>
  key. \<open>item_id\<close> is empty until the loop numbers the items; \<open>item_reason\<close> and
  \<open>ai_relevant\<close> are the keys the classification loop adds.
\<close>

record item =
  title :: string
  abstract :: string
  date :: "int option"
  doi :: string
  link :: "string option"
  item_url :: "string option"
  authors :: string
  item_type :: string
  journal :: "string option"
  item_id :: string
  item_reason :: "string option"
  ai_relevant :: "bool option"

text \<open>One entry of a pass result, as \<^verbatim>\<open>analyze_batch_papers_with_id\<close> builds it.\<close>

record vote =
  vote_id :: string
  is_ai_related :: bool
  explanation :: string

text \<open>
  The result of the single-item call \<^verbatim>\<open>analyze_paper\<close>. The language model is outside
  the program: the agent is a function of the number of single-item calls made so far,
  the title and the abstract, so two calls on the same text may answer differently.
\<close>

record review =
  review_is_ai_related :: bool
  review_explanation :: "string option"

type_synonym agent = "nat \<Rightarrow> string \<Rightarrow> string \<Rightarrow> review"

record cstate =
  ai_papers :: "item list"
  non_ai_papers :: "item list"
  calls :: "(string \<times> string) list"

definition init_cstate :: cstate where
  "init_cstate = \<lparr>ai_papers = [], non_ai_papers = [], calls = []\<rparr>"

text \<open>\<^verbatim>\<open>str(i)\<close> for the ids \<^verbatim>\<open>'1', '2', ...\<close> given by \<^verbatim>\<open>enumerate(card_infos, start=1)\<close>.\<close>

definition digit_char :: "nat \<Rightarrow> char" where
  "digit_char d = ''0123456789'' ! d"

fun str :: "nat \<Rightarrow> string" where
  "str n = (if n < 10 then [digit_char n] else str (n div 10) @ [digit_char (n mod 10)])"

fun assign_ids :: "nat \<Rightarrow> item list \<Rightarrow> item list" where
  "assign_ids i [] = []"
| "assign_ids i (x # xs) = x\<lparr>item_id := str i\<rparr> # assign_ids (Suc i) xs"

text \<open>\<^verbatim>\<open>{res['id']: res for res in result}\<close>: a later entry of the same id replaces an earlier one.\<close>

definition result_map :: "vote list \<Rightarrow> (string \<rightharpoonup> vote)" where
  "result_map result = foldl (\<lambda>m res. m(vote_id res \<mapsto> res)) Map.empty result"

text \<open>The reason stored by crawler\_light/main.py for a missing vote: \<^verbatim>\<open>'AI'\<close> followed by
  the UTF-8 bytes of the four Chinese characters for "analysis failed".\<close>

definition ai_analysis_failed :: string where
  "ai_analysis_failed = ''AI'' @ map char_of
     [0xE5, 0x88, 0x86, 0xE6, 0x9E, 0x90, 0xE5, 0xA4, 0xB1, 0xE8, 0xB4, 0xA5 :: nat]"

text \<open>
  The branch the three orchestrators take when both votes are there.
  \<^verbatim>\<open>NatureParser.scrape_journal\<close> has a copy of its own, which works on the parser's
  lists and is followed by more code; it is modelled separately (\<open>nature_item\<close>,
  \<open>scrape_journal\<close>).
\<close>

definition decide :: "agent \<Rightarrow> vote \<Rightarrow> vote \<Rightarrow> item \<Rightarrow> cstate \<Rightarrow> cstate" where
  "decide ag r1 r2 it st =
     (if is_ai_related r1 \<and> is_ai_related r2
      then st\<lparr>ai_papers := ai_papers st @ [it\<lparr>item_reason := Some (explanation r1)\<rparr>]\<rparr>
      else if \<not> is_ai_related r1 \<and> \<not> is_ai_related r2
      then st\<lparr>non_ai_papers := non_ai_papers st @ [it\<lparr>item_reason := Some (explanation r1)\<rparr>]\<rparr>
      else
        let rv = ag (length (calls st)) (title it) (abstract it);
            it' = it\<lparr>item_reason :=
                    Some (case review_explanation rv of None \<Rightarrow> ''reviewed'' | Some e \<Rightarrow> e)\<rparr>;
            st' = st\<lparr>calls := calls st @ [(title it, abstract it)]\<rparr>
        in if review_is_ai_related rv
           then st'\<lparr>ai_papers := ai_papers st' @ [it']\<rparr>
           else st'\<lparr>non_ai_papers := non_ai_papers st' @ [it']\<rparr>)"

text \<open>crawler\_light/main.py: a missing vote files the item as non-relevant.\<close>

definition classify_item_light ::
  "agent \<Rightarrow> (string \<rightharpoonup> vote) \<Rightarrow> (string \<rightharpoonup> vote) \<Rightarrow> cstate \<Rightarrow> item \<Rightarrow> cstate" where
  "classify_item_light ag r1_map r2_map st it =
     (case (r1_map (item_id it), r2_map (item_id it)) of
        (Some r1, Some r2) \<Rightarrow> decide ag r1 r2 it st
      | _ \<Rightarrow> st\<lparr>non_ai_papers := non_ai_papers st @
                 [it\<lparr>item_reason := Some ai_analysis_failed, ai_relevant := Some False\<rparr>]\<rparr>)"

text \<open>main\_backward.py and main\_forward.py: a missing vote is a bare \<^verbatim>\<open>continue\<close>.\<close>

definition classify_item ::
  "agent \<Rightarrow> (string \<rightharpoonup> vote) \<Rightarrow> (string \<rightharpoonup> vote) \<Rightarrow> cstate \<Rightarrow> item \<Rightarrow> cstate" where
  "classify_item ag r1_map r2_map st it =
     (case (r1_map (item_id it), r2_map (item_id it)) of
        (Some r1, Some r2) \<Rightarrow> decide ag r1 r2 it st
      | _ \<Rightarrow> st)"

text \<open>The loop over \<^verbatim>\<open>card_infos\<close>, after the ids are given and the two maps are built.\<close>

definition classify_light :: "agent \<Rightarrow> vote list \<Rightarrow> vote list \<Rightarrow> item list \<Rightarrow> cstate" where
  "classify_light ag result1 result2 card_infos =
     foldl (classify_item_light ag (result_map result1) (result_map result2)) init_cstate
       (assign_ids 1 card_infos)"

definition classify :: "agent \<Rightarrow> vote list \<Rightarrow> vote list \<Rightarrow> item list \<Rightarrow> cstate" where
  "classify ag result1 result2 card_infos =
     foldl (classify_item ag (result_map result1) (result_map result2)) init_cstate
       (assign_ids 1 card_infos)"


text \<open>
  \<^verbatim>\<open>ai_papers.sort(key=lambda x: x.get('date', ...))\<close> in main\_backward.py. The key
  \<^verbatim>\<open>'date'\<close> is always there, so the default is never used and the key of an undated
  item is \<^verbatim>\<open>None\<close>. A list of fewer than two items is not compared at all; otherwise
  comparing \<^verbatim>\<open>None\<close> raises \<^verbatim>\<open>TypeError\<close>, which the orchestrator's handler for the
  sub-journal catches before anything is saved. The sort is stable.
\<close>

datatype py_error = TypeError

definition sort_by_date :: "item list \<Rightarrow> py_error + item list" where
  "sort_by_date xs =
     (if length xs < 2 then Inr xs
      else if \<exists>x \<in> set xs. date x = None then Inl TypeError
      else Inr (sort_key (\<lambda>x. the (date x)) xs))"

text \<open>The list whose items reach \<^verbatim>\<open>db.save_paper\<close>, in the order they are saved:
  main\_backward.py sorts it first, main\_forward.py does not.\<close>

definition handoff_incremental :: "agent \<Rightarrow> vote list \<Rightarrow> vote list \<Rightarrow> item list \<Rightarrow> py_error + item list" where
  "handoff_incremental ag result1 result2 card_infos =
     sort_by_date (ai_papers (classify ag result1 result2 card_infos))"

definition handoff_forward :: "agent \<Rightarrow> vote list \<Rightarrow> vote list \<Rightarrow> item list \<Rightarrow> item list" where
  "handoff_forward ag result1 result2 card_infos =
     ai_papers (classify ag result1 result2 card_infos)"

text \<open>
  The last statement of \<^verbatim>\<open>NatureParser.scrape_journal\<close>:
  \<^verbatim>\<open>articles.sort(key=lambda x: x['date'] or dateparser.parse('1900-01-01'), reverse=True)\<close>.
  A dated item has a \<^verbatim>\<open>date\<close> key, an undated one the \<^verbatim>\<open>datetime\<close> of 1900-01-01, and
  Python refuses to compare the two. With \<^verbatim>\<open>reverse=True\<close> the order is descending and
  items of equal key keep their order.
\<close>

definition nature_sort :: "item list \<Rightarrow> py_error + item list" where
  "nature_sort xs =
     (if length xs < 2 then Inr xs
      else if \<forall>x \<in> set xs. date x \<noteq> None
      then Inr (rev (sort_key (\<lambda>x. the (date x)) (rev xs)))
      else if \<forall>x \<in> set xs. date x = None then Inr xs
      else Inl TypeError)"

definition disagree :: "(string \<rightharpoonup> vote) \<Rightarrow> (string \<rightharpoonup> vote) \<Rightarrow> item \<Rightarrow> bool" where
  "disagree r1_map r2_map it =
     (case (r1_map (item_id it), r2_map (item_id it)) of
        (Some r1, Some r2) \<Rightarrow> is_ai_related r1 \<noteq> is_ai_related r2
      | _ \<Rightarrow> False)"

definition missing_vote :: "(string \<rightharpoonup> vote) \<Rightarrow> (string \<rightharpoonup> vote) \<Rightarrow> item \<Rightarrow> bool" where
  "missing_vote r1_map r2_map it \<longleftrightarrow> r1_map (item_id it) = None \<or> r2_map (item_id it) = None"

definition example_item :: "string \<Rightarrow> int option \<Rightarrow> item" where
  "example_item t d = \<lparr>title = t, abstract = ''abstract of '' @ t, date = d, doi = ''10.1000/'' @ t,
     link = Some (''https://example.org/'' @ t), item_url = Some (''https://example.org/'' @ t),
     authors = ''A. Author'', item_type = ''incremental'', journal = None, item_id = [],
     item_reason = None, ai_relevant = None\<rparr>"

definition example_vote :: "string \<Rightarrow> bool \<Rightarrow> vote" where
  "example_vote i b = \<lparr>vote_id = i, is_ai_related = b, explanation = ''pass says '' @ i\<rparr>"

definition example_agent :: agent where
  "example_agent n t a = \<lparr>review_is_ai_related = True, review_explanation = Some ''third opinion''\<rparr>"

subsection \<open>Properties of the classification loop\<close>

lemma length_assign_ids: "length (assign_ids i xs) = length xs"
  by (induction xs arbitrary: i) simp_all

lemma decide_count:
  "length (ai_papers (decide ag r1 r2 it st)) + length (non_ai_papers (decide ag r1 r2 it st)) =
   Suc (length (ai_papers st) + length (non_ai_papers st))"
  by (simp add: decide_def Let_def)

lemma light_step_count:
  "length (ai_papers (classify_item_light ag m1 m2 st it)) +
   length (non_ai_papers (classify_item_light ag m1 m2 st it)) =
   Suc (length (ai_papers st) + length (non_ai_papers st))"
  by (simp add: classify_item_light_def decide_count split: option.split)

lemma light_loop_count:
  "length (ai_papers (foldl (classify_item_light ag m1 m2) st xs)) +
   length (non_ai_papers (foldl (classify_item_light ag m1 m2) st xs)) =
   length xs + (length (ai_papers st) + length (non_ai_papers st))"
  by (induction xs arbitrary: st) (simp_all add: light_step_count)

lemma light_step_non_ai_grows:
  "set (non_ai_papers st) \<subseteq> set (non_ai_papers (classify_item_light ag m1 m2 st it))"
  by (auto simp: classify_item_light_def decide_def Let_def split: option.split)

lemma light_loop_non_ai_grows:
  "set (non_ai_papers st) \<subseteq> set (non_ai_papers (foldl (classify_item_light ag m1 m2) st xs))"
proof (induction xs arbitrary: st)
  case Nil
  show ?case by simp
next
  case (Cons x xs)
  have "set (non_ai_papers st) \<subseteq> set (non_ai_papers (classify_item_light ag m1 m2 st x))"
    by (rule light_step_non_ai_grows)
  also have "\<dots> \<subseteq> set (non_ai_papers (foldl (classify_item_light ag m1 m2)
      (classify_item_light ag m1 m2 st x) xs))"
    by (rule Cons.IH)
  finally show ?case by simp
qed

lemma light_loop_missing:
  assumes "it \<in> set xs" and "missing_vote m1 m2 it"
  shows "it\<lparr>item_reason := Some ai_analysis_failed, ai_relevant := Some False\<rparr>
         \<in> set (non_ai_papers (foldl (classify_item_light ag m1 m2) st xs))"
  using assms
proof (induction xs arbitrary: st)
  case Nil
  then show ?case by simp
next
  case (Cons x xs)
  show ?case
  proof (cases "it = x")
    case True
    with Cons.prems have "it\<lparr>item_reason := Some ai_analysis_failed, ai_relevant := Some False\<rparr>
        \<in> set (non_ai_papers (classify_item_light ag m1 m2 st x))"
      by (auto simp: classify_item_light_def missing_vote_def split: option.split)
    then show ?thesis
      using light_loop_non_ai_grows [of "classify_item_light ag m1 m2 st x" ag m1 m2 xs]
      by auto
  next
    case False
    with Cons.prems have "it \<in> set xs" by simp
    then show ?thesis using Cons.IH Cons.prems(2) by simp
  qed
qed


lemma step_calls:
  "calls (classify_item ag m1 m2 st it) =
   calls st @ (if disagree m1 m2 it then [(title it, abstract it)] else [])"
  by (auto simp: classify_item_def disagree_def decide_def Let_def split: option.split)

lemma light_step_calls:
  "calls (classify_item_light ag m1 m2 st it) =
   calls st @ (if disagree m1 m2 it then [(title it, abstract it)] else [])"
  by (auto simp: classify_item_light_def disagree_def decide_def Let_def split: option.split)

lemma loop_calls:
  "calls (foldl (classify_item ag m1 m2) st xs) =
   calls st @ map (\<lambda>it. (title it, abstract it)) (filter (disagree m1 m2) xs)"
  by (induction xs arbitrary: st) (simp_all add: step_calls)

lemma light_loop_calls:
  "calls (foldl (classify_item_light ag m1 m2) st xs) =
   calls st @ map (\<lambda>it. (title it, abstract it)) (filter (disagree m1 m2) xs)"
  by (induction xs arbitrary: st) (simp_all add: light_step_calls)

lemma step_count:
  "length (ai_papers (classify_item ag m1 m2 st it)) +
   length (non_ai_papers (classify_item ag m1 m2 st it)) =
   (if missing_vote m1 m2 it then 0 else 1) + (length (ai_papers st) + length (non_ai_papers st))"
  by (auto simp: classify_item_def missing_vote_def decide_count split: option.split)

lemma loop_count:
  "length (ai_papers (foldl (classify_item ag m1 m2) st xs)) +
   length (non_ai_papers (foldl (classify_item ag m1 m2) st xs)) =
   length (filter (\<lambda>it. \<not> missing_vote m1 m2 it) xs) +
   (length (ai_papers st) + length (non_ai_papers st))"
  by (induction xs arbitrary: st) (simp_all add: step_count)

text \<open>
  In crawler\_light/main.py no item is lost: the two output lists together are as long
  as the input, and every item without a vote from one of the passes is in the
  non-relevant list, carrying the "analysis failed" reason.
\<close>

lemma light_keeps_every_item:
  "length (ai_papers (classify_light ag result1 result2 card_infos)) +
   length (non_ai_papers (classify_light ag result1 result2 card_infos)) = length card_infos"
  "it \<in> set (assign_ids 1 card_infos) \<Longrightarrow>
   missing_vote (result_map result1) (result_map result2) it \<Longrightarrow>
   it\<lparr>item_reason := Some ai_analysis_failed, ai_relevant := Some False\<rparr>
     \<in> set (non_ai_papers (classify_light ag result1 result2 card_infos))"
  by (simp_all add: classify_light_def light_loop_count light_loop_missing length_assign_ids
      init_cstate_def)

text \<open>
  In main\_backward.py and main\_forward.py the two output lists hold exactly the items
  that have both votes.
\<close>

lemma classify_counts_voted:
  "length (ai_papers (classify ag result1 result2 card_infos)) +
   length (non_ai_papers (classify ag result1 result2 card_infos)) =
   length (filter (\<lambda>it. \<not> missing_vote (result_map result1) (result_map result2) it)
     (assign_ids 1 card_infos))"
  by (simp add: classify_def loop_count init_cstate_def)

definition example_cards :: "item list" where
  "example_cards = [example_item ''a'' (Some 10), example_item ''b'' (Some 9)]"

definition example_pass_full :: "vote list" where
  "example_pass_full = [example_vote ''1'' True, example_vote ''2'' True]"

definition example_pass_partial :: "vote list" where
  "example_pass_partial = [example_vote ''1'' True]"

text \<open>
  C1. The claim asks that an item missing from either pass's result map be filed as
  non-relevant with the "classification failed" reason, so that the two output lists
  together are as long as the input. \<^verbatim>\<open>run_incremental_crawl\<close> of main\_backward.py does
  not do so: with two input items, pass A voting on both and pass B answering for item 1
  only, item 2 is in neither list and one item comes out of two.
\<close>

theorem incremental_drops_item_without_vote:
  "length example_cards = 2
   \<and> map item_id (assign_ids 1 example_cards) = [''1'', ''2'']
   \<and> result_map example_pass_partial ''2'' = None
   \<and> map item_id (ai_papers (classify example_agent example_pass_full example_pass_partial
        example_cards)) = [''1'']
   \<and> non_ai_papers (classify example_agent example_pass_full example_pass_partial
        example_cards) = []
   \<and> length (ai_papers (classify example_agent example_pass_full example_pass_partial
        example_cards)) +
     length (non_ai_papers (classify example_agent example_pass_full example_pass_partial
        example_cards)) = 1"
  by code_simp


definition adjudicated :: "agent \<Rightarrow> item \<Rightarrow> cstate \<Rightarrow> item" where
  "adjudicated ag it st =
     it\<lparr>item_reason := Some (case review_explanation (ag (length (calls st)) (title it) (abstract it))
                             of None \<Rightarrow> ''reviewed'' | Some e \<Rightarrow> e)\<rparr>"

lemma decide_agree_relevant:
  "is_ai_related r1 \<Longrightarrow> is_ai_related r2 \<Longrightarrow>
   decide ag r1 r2 it st = st\<lparr>ai_papers := ai_papers st @ [it\<lparr>item_reason := Some (explanation r1)\<rparr>]\<rparr>"
  by (simp add: decide_def)

lemma decide_agree_not_relevant:
  "\<not> is_ai_related r1 \<Longrightarrow> \<not> is_ai_related r2 \<Longrightarrow>
   decide ag r1 r2 it st =
     st\<lparr>non_ai_papers := non_ai_papers st @ [it\<lparr>item_reason := Some (explanation r1)\<rparr>]\<rparr>"
  by (simp add: decide_def)

lemma decide_disagree:
  "is_ai_related r1 \<noteq> is_ai_related r2 \<Longrightarrow>
   decide ag r1 r2 it st =
     (if review_is_ai_related (ag (length (calls st)) (title it) (abstract it))
      then st\<lparr>calls := calls st @ [(title it, abstract it)],
              ai_papers := ai_papers st @ [adjudicated ag it st]\<rparr>
      else st\<lparr>calls := calls st @ [(title it, abstract it)],
              non_ai_papers := non_ai_papers st @ [adjudicated ag it st]\<rparr>)"
  by (auto simp: decide_def adjudicated_def Let_def)

text \<open>
  In the three orchestrators an item with a vote from both passes is handled by the
  same branch (\<open>decide\<close>). When the votes agree the item goes to the list of that verdict
  with pass A's explanation as its reason and the list of single-item calls is
  unchanged. When they disagree one single-item call is made on the item's title and
  abstract, and the item goes to the list its answer names, with its explanation. A call
  is made exactly when the votes disagree; over a whole run the calls are those for the
  disagreeing items, in order.
\<close>

lemma two_pass_branch:
  assumes "r1_map (item_id it) = Some r1" and "r2_map (item_id it) = Some r2"
  shows "classify_item ag r1_map r2_map st it = decide ag r1 r2 it st
       \<and> classify_item_light ag r1_map r2_map st it = decide ag r1 r2 it st
       \<and> (is_ai_related r1 \<and> is_ai_related r2 \<longrightarrow>
            decide ag r1 r2 it st =
              st\<lparr>ai_papers := ai_papers st @ [it\<lparr>item_reason := Some (explanation r1)\<rparr>]\<rparr>)
       \<and> (\<not> is_ai_related r1 \<and> \<not> is_ai_related r2 \<longrightarrow>
            decide ag r1 r2 it st =
              st\<lparr>non_ai_papers := non_ai_papers st @ [it\<lparr>item_reason := Some (explanation r1)\<rparr>]\<rparr>)
       \<and> (is_ai_related r1 \<noteq> is_ai_related r2 \<longrightarrow>
            calls (decide ag r1 r2 it st) = calls st @ [(title it, abstract it)]
            \<and> (if review_is_ai_related (ag (length (calls st)) (title it) (abstract it))
               then ai_papers (decide ag r1 r2 it st) = ai_papers st @ [adjudicated ag it st]
                  \<and> non_ai_papers (decide ag r1 r2 it st) = non_ai_papers st
               else non_ai_papers (decide ag r1 r2 it st) = non_ai_papers st @ [adjudicated ag it st]
                  \<and> ai_papers (decide ag r1 r2 it st) = ai_papers st))
       \<and> (calls (decide ag r1 r2 it st) \<noteq> calls st \<longleftrightarrow> is_ai_related r1 \<noteq> is_ai_related r2)
       \<and> calls (classify ag result1 result2 card_infos) =
           map (\<lambda>it. (title it, abstract it))
             (filter (disagree (result_map result1) (result_map result2)) (assign_ids 1 card_infos))
       \<and> calls (classify_light ag result1 result2 card_infos) =
           map (\<lambda>it. (title it, abstract it))
             (filter (disagree (result_map result1) (result_map result2)) (assign_ids 1 card_infos))"
proof -
  have a: "classify_item ag r1_map r2_map st it = decide ag r1 r2 it st"
    using assms by (simp add: classify_item_def)
  have b: "classify_item_light ag r1_map r2_map st it = decide ag r1 r2 it st"
    using assms by (simp add: classify_item_light_def)
  have c: "calls (decide ag r1 r2 it st) =
      calls st @ (if is_ai_related r1 \<noteq> is_ai_related r2 then [(title it, abstract it)] else [])"
    using step_calls [of ag r1_map r2_map st it] assms a by (simp add: disagree_def)
  have d: "calls (classify ag result1 result2 card_infos) =
      map (\<lambda>it. (title it, abstract it))
        (filter (disagree (result_map result1) (result_map result2)) (assign_ids 1 card_infos))"
    by (simp add: classify_def loop_calls init_cstate_def)
  have e: "calls (classify_light ag result1 result2 card_infos) =
      map (\<lambda>it. (title it, abstract it))
        (filter (disagree (result_map result1) (result_map result2)) (assign_ids 1 card_infos))"
    by (simp add: classify_light_def light_loop_calls init_cstate_def)
  have f: "is_ai_related r1 \<noteq> is_ai_related r2 \<longrightarrow>
      (if review_is_ai_related (ag (length (calls st)) (title it) (abstract it))
       then ai_papers (decide ag r1 r2 it st) = ai_papers st @ [adjudicated ag it st]
          \<and> non_ai_papers (decide ag r1 r2 it st) = non_ai_papers st
       else non_ai_papers (decide ag r1 r2 it st) = non_ai_papers st @ [adjudicated ag it st]
          \<and> ai_papers (decide ag r1 r2 it st) = ai_papers st)"
    by (simp add: decide_disagree)
  show ?thesis
    using a b c d e f decide_agree_relevant [of r1 r2 ag it st]
      decide_agree_not_relevant [of r1 r2 ag it st]
    by simp
qed

lemma two_pass_branch_example:
  "result_map example_pass_full ''1'' = Some (example_vote ''1'' True)
   \<and> classify_item example_agent (result_map example_pass_full) (result_map example_pass_full)
       init_cstate ((example_item ''a'' (Some 10))\<lparr>item_id := ''1''\<rparr>) =
     \<lparr>ai_papers = [(example_item ''a'' (Some 10))\<lparr>item_id := ''1'',
                     item_reason := Some (explanation (example_vote ''1'' True))\<rparr>],
      non_ai_papers = [], calls = []\<rparr>"
proof -
  have h: "result_map example_pass_full (item_id ((example_item ''a'' (Some 10))\<lparr>item_id := ''1''\<rparr>))
      = Some (example_vote ''1'' True)"
    by (simp add: result_map_def example_pass_full_def example_vote_def)
  have v: "is_ai_related (example_vote ''1'' True)"
    by (simp add: example_vote_def)
  show ?thesis
    using h v
      two_pass_branch [where ?r1_map = "result_map example_pass_full"
        and ?r2_map = "result_map example_pass_full"
        and ?it = "(example_item ''a'' (Some 10))\<lparr>item_id := ''1''\<rparr>"
        and ?r1.0 = "example_vote ''1'' True" and ?r2.0 = "example_vote ''1'' True"
        and ?ag = example_agent and ?st = init_cstate, OF h h]
    by (simp add: init_cstate_def)
qed


subsection \<open>Order of the relevant items\<close>

definition date_le :: "item \<Rightarrow> item \<Rightarrow> bool" where
  "date_le a b \<longleftrightarrow> (\<exists>x y. date a = Some x \<and> date b = Some y \<and> x \<le> y)"

definition example_sorted :: "item list" where
  "example_sorted =
     [(example_item ''b'' (Some 9))\<lparr>item_id := ''2'', item_reason := Some ''pass says 2''\<rparr>,
      (example_item ''a'' (Some 10))\<lparr>item_id := ''1'', item_reason := Some ''pass says 1''\<rparr>]"

lemma sort_key_date_le:
  assumes "\<forall>x \<in> set l. date x \<noteq> None"
  shows "sorted_wrt date_le (sort_key (\<lambda>x. the (date x)) l)"
proof -
  have "sorted (map (\<lambda>x. the (date x)) (sort_key (\<lambda>x. the (date x)) l))"
    by (rule sorted_sort_key)
  then have "sorted_wrt (\<lambda>a b. the (date a) \<le> the (date b)) (sort_key (\<lambda>x. the (date x)) l)"
    by (simp add: sorted_map)
  moreover have "date_le a b"
    if "a \<in> set (sort_key (\<lambda>x. the (date x)) l)" "b \<in> set (sort_key (\<lambda>x. the (date x)) l)"
      "the (date a) \<le> the (date b)" for a b
  proof -
    from that(1,2) have "a \<in> set l" "b \<in> set l" by simp_all
    with assms have "date a \<noteq> None" "date b \<noteq> None" by blast+
    then obtain x y where "date a = Some x" "date b = Some y" by auto
    with that(3) show ?thesis by (simp add: date_le_def)
  qed
  ultimately show ?thesis
    by (rule sorted_wrt_mono_rel [rotated])
qed

lemma short_sorted_wrt:
  assumes "length xs < 2"
  shows "sorted_wrt P xs"
proof (cases xs)
  case Nil
  then show ?thesis by simp
next
  case (Cons a as)
  with assms have "as = []" by (cases as) simp_all
  with Cons show ?thesis by simp
qed

lemma sort_by_date_cases:
  assumes "sort_by_date ys = Inr xs"
  shows "(length ys < 2 \<and> xs = ys) \<or>
         ((\<forall>x \<in> set ys. date x \<noteq> None) \<and> xs = sort_key (\<lambda>x. the (date x)) ys)"
proof (cases "length ys < 2")
  case True
  then have "sort_by_date ys = Inr ys" by (simp add: sort_by_date_def)
  with assms True show ?thesis by simp
next
  case False
  show ?thesis
  proof (cases "\<exists>x \<in> set ys. date x = None")
    case True
    with False have "sort_by_date ys = Inl TypeError" by (simp add: sort_by_date_def)
    with assms show ?thesis by simp
  next
    case nodate: False
    with False have "sort_by_date ys = Inr (sort_key (\<lambda>x. the (date x)) ys)"
      by (simp add: sort_by_date_def)
    with assms have "xs = sort_key (\<lambda>x. the (date x)) ys" by simp
    moreover from nodate have "\<forall>x \<in> set ys. date x \<noteq> None" by simp
    ultimately show ?thesis by simp
  qed
qed

lemma nature_sort_cases:
  assumes "nature_sort ys = Inr zs"
  shows "(length ys < 2 \<and> zs = ys)
       \<or> ((\<forall>x \<in> set ys. date x \<noteq> None) \<and> zs = rev (sort_key (\<lambda>x. the (date x)) (rev ys)))
       \<or> ((\<forall>x \<in> set ys. date x = None) \<and> zs = ys)"
proof (cases "length ys < 2")
  case True
  then have "nature_sort ys = Inr ys" by (simp add: nature_sort_def)
  with assms True show ?thesis by simp
next
  case False
  show ?thesis
  proof (cases "\<forall>x \<in> set ys. date x \<noteq> None")
    case True
    with False have "nature_sort ys = Inr (rev (sort_key (\<lambda>x. the (date x)) (rev ys)))"
      unfolding nature_sort_def by (simp only: if_P if_not_P if_True if_False)
    with assms have "zs = rev (sort_key (\<lambda>x. the (date x)) (rev ys))" by simp
    with True show ?thesis by simp
  next
    case mixed: False
    show ?thesis
    proof (cases "\<forall>x \<in> set ys. date x = None")
      case True
      with False mixed have "nature_sort ys = Inr ys"
        unfolding nature_sort_def by (simp only: if_P if_not_P if_True if_False)
      with assms have "zs = ys" by simp
      with True show ?thesis by simp
    next
      case nope: False
      with False mixed have "nature_sort ys = Inl TypeError"
        unfolding nature_sort_def by (simp only: if_P if_not_P if_True if_False)
      with assms show ?thesis by simp
    qed
  qed
qed

lemma sort_by_date_sorted:
  assumes "sort_by_date ys = Inr xs"
  shows "sorted_wrt date_le xs" and "mset xs = mset ys"
proof -
  from sort_by_date_cases [OF assms] show "sorted_wrt date_le xs"
    using short_sorted_wrt [of ys date_le] sort_key_date_le [of ys] by auto
  from sort_by_date_cases [OF assms] show "mset xs = mset ys"
    by (elim disjE conjE) simp_all
qed

lemma nature_sort_descending:
  assumes "nature_sort ys = Inr zs"
  shows "sorted_wrt (\<lambda>a b. date_le b a \<or> (date a = None \<and> date b = None)) zs"
    and "mset zs = mset ys"
proof -
  consider "length ys < 2" "zs = ys"
    | "\<forall>x \<in> set ys. date x \<noteq> None" "zs = rev (sort_key (\<lambda>x. the (date x)) (rev ys))"
    | "\<forall>x \<in> set ys. date x = None" "zs = ys"
    using nature_sort_cases [OF assms] by auto
  then show "sorted_wrt (\<lambda>a b. date_le b a \<or> (date a = None \<and> date b = None)) zs"
  proof cases
    case 1
    then show ?thesis by (simp add: short_sorted_wrt)
  next
    case 2
    then have "sorted_wrt date_le (sort_key (\<lambda>x. the (date x)) (rev ys))"
      by (simp add: sort_key_date_le)
    then have "sorted_wrt (\<lambda>a b. date_le b a) zs"
      using 2(2) by (simp add: sorted_wrt_rev)
    then show ?thesis
      by (rule sorted_wrt_mono_rel [rotated]) simp
  next
    case 3
    have "sorted_wrt (\<lambda>a b. True) zs" by simp
    then show ?thesis
      by (rule sorted_wrt_mono_rel [rotated]) (use 3 in simp)
  qed
  from nature_sort_cases [OF assms] show "mset zs = mset ys"
    by (elim disjE conjE) simp_all
qed

text \<open>
  When the sort of main\_backward.py succeeds: exactly when there are fewer than two
  relevant items or each of them has a date.
\<close>

lemma sort_succeeds_iff:
  "(\<exists>xs. sort_by_date ys = Inr xs) \<longleftrightarrow> length ys < 2 \<or> (\<forall>x \<in> set ys. date x \<noteq> None)"
proof (cases "length ys < 2")
  case True
  then have "sort_by_date ys = Inr ys" by (simp add: sort_by_date_def)
  with True show ?thesis by simp
next
  case False
  show ?thesis
  proof (cases "\<exists>x \<in> set ys. date x = None")
    case True
    with False have "sort_by_date ys = Inl TypeError" by (simp add: sort_by_date_def)
    with False True show ?thesis by auto
  next
    case nodate: False
    with False have "sort_by_date ys = Inr (sort_key (\<lambda>x. the (date x)) ys)"
      by (simp add: sort_by_date_def)
    with nodate show ?thesis by auto
  qed
qed

text \<open>
  In the incremental crawl (main\_backward.py), when every relevant item of the batch
  has a date, the relevant items reach \<^verbatim>\<open>save_paper\<close> in ascending order of publication
  date, all of them and nothing else, and items of the same date in the order in which
  they were classified.
\<close>

lemma incremental_handoff_sorted:
  assumes "\<forall>x \<in> set (ai_papers (classify ag result1 result2 card_infos)). date x \<noteq> None"
  shows "\<exists>xs. handoff_incremental ag result1 result2 card_infos = Inr xs
           \<and> sorted_wrt date_le xs
           \<and> mset xs = mset (ai_papers (classify ag result1 result2 card_infos))
           \<and> (\<forall>d. filter (\<lambda>x. the (date x) = d) xs =
                    filter (\<lambda>x. the (date x) = d) (ai_papers (classify ag result1 result2 card_infos)))"
proof -
  let ?ys = "ai_papers (classify ag result1 result2 card_infos)"
  show ?thesis
  proof (cases "length ?ys < 2")
    case True
    then have "handoff_incremental ag result1 result2 card_infos = Inr ?ys"
      by (simp add: handoff_incremental_def sort_by_date_def)
    with True show ?thesis by (simp add: short_sorted_wrt)
  next
    case False
    from assms have "\<not> (\<exists>x \<in> set ?ys. date x = None)" by simp
    with False have "handoff_incremental ag result1 result2 card_infos
        = Inr (sort_key (\<lambda>x. the (date x)) ?ys)"
      by (simp add: handoff_incremental_def sort_by_date_def)
    moreover have "sorted_wrt date_le (sort_key (\<lambda>x. the (date x)) ?ys)"
      using assms by (rule sort_key_date_le)
    moreover have "filter (\<lambda>x. the (date x) = d) (sort_key (\<lambda>x. the (date x)) ?ys)
        = filter (\<lambda>x. the (date x) = d) ?ys" for d
      by (rule sort_key_stable)
    ultimately show ?thesis by simp
  qed
qed

lemma incremental_handoff_example:
  "handoff_incremental example_agent example_pass_full example_pass_full example_cards =
     Inr example_sorted
   \<and> map date example_sorted = [Some 9, Some 10]"
  by code_simp

lemma later_first_not_ascending:
  assumes "map date xs = [Some x, Some y]" and "y < x"
  shows "\<not> sorted_wrt date_le xs"
proof -
  from assms(1) obtain a b where "xs = [a, b]" "date a = Some x" "date b = Some y"
    by (auto simp: map_eq_Cons_conv)
  with assms(2) show ?thesis by (simp add: date_le_def)
qed


section \<open>Windowed listing crawl (NatureParser.scrape\_journal, parser.py)\<close>

text \<open>
  One listing stream is the \<^verbatim>\<open>while page_url\<close> loop that \<^verbatim>\<open>scrape_journal\<close> runs for one
  article type. The site is outside the program, so a stream is given as what the
  requests return: a page that cannot be fetched (\<open>Unreachable\<close>, the loop's
  \<^verbatim>\<open>break\<close>), a page without a next-page link (\<open>LastPage\<close>), or a page whose next-page
  link leads to the rest of the stream (\<open>Page\<close>).

  A card of a page is \<open>Untitled\<close> when it has no title tag or no anchor in it (the card
  is skipped before its date is read). Otherwise it carries its title, its link, its
  parsed date (a day number; \<open>None\<close> when \<^verbatim>\<open>dateparser\<close> finds no date) and what
  \<^verbatim>\<open>fetch_abstract_and_authors\<close> returns for the link (\<open>None\<close> when that call raises,
  which skips the card after its date was read).
\<close>

datatype card = Untitled | Card string string "int option" "(string \<times> string) option"

datatype listing = Unreachable | LastPage "card list" | Page "card list" listing

text \<open>
  The parameters of a crawl: the window, the journal name and article type, the
  duplicate check against the database (\<^verbatim>\<open>self.db and hasattr(self.db, 'paper_exists') and
  self.db.paper_exists(doi=doi)\<close>) and the set of (title, link) pairs already recorded as
  non-relevant.
\<close>

record crawl_params =
  start_date :: int
  end_date :: int
  paper_exists :: "string \<Rightarrow> bool"
  non_ai_set :: "(string \<times> string) set"
  crawl_journal :: string
  article_type :: string

record crawl_state =
  card_infos :: "item list"
  ret_date :: "int option"
  requests :: nat
  error_link :: nat

text \<open>\<^verbatim>\<open>link.split('/')[-1]\<close>: what follows the last slash.\<close>

definition last_segment :: "string \<Rightarrow> string" where
  "last_segment s = rev (takeWhile (\<lambda>c. c \<noteq> CHR ''/'') (rev s))"

definition card_info :: "crawl_params \<Rightarrow> string \<Rightarrow> string \<Rightarrow> int option \<Rightarrow> string \<Rightarrow> string \<Rightarrow> item" where
  "card_info P t l pub_date real_abs auth =
     \<lparr>title = t, abstract = real_abs, date = pub_date, doi = last_segment l, link = None,
      item_url = Some l, authors = auth, item_type = article_type P,
      journal = Some (crawl_journal P), item_id = [], item_reason = None, ai_relevant = None\<rparr>"

text \<open>
  The body of \<^verbatim>\<open>for card in cards\<close>. \<^verbatim>\<open>ret_date\<close> is set as soon as the date is read;
  the two window tests are made only under \<^verbatim>\<open>if pub_date:\<close>.
\<close>

definition keep_card :: "crawl_params \<Rightarrow> crawl_state \<Rightarrow> string \<Rightarrow> string \<Rightarrow> int option \<Rightarrow> (string \<times> string) option \<Rightarrow> crawl_state" where
  "keep_card P st t l pub_date details =
     (case details of
        None \<Rightarrow> st
      | Some (real_abs, auth) \<Rightarrow>
          if paper_exists P (last_segment l) then st
          else if (t, l) \<in> non_ai_set P then st
          else st\<lparr>card_infos := card_infos st @ [card_info P t l pub_date real_abs auth]\<rparr>)"

fun process_card :: "crawl_params \<Rightarrow> crawl_state \<Rightarrow> card \<Rightarrow> crawl_state" where
  "process_card P st Untitled = st"
| "process_card P st (Card t l pub_date details) =
     (let st1 = st\<lparr>ret_date := pub_date\<rparr>
      in case pub_date of
           Some d \<Rightarrow>
             if d < start_date P then st1
             else if end_date P < d then st1
             else keep_card P st1 t l pub_date details
         | None \<Rightarrow> keep_card P st1 t l pub_date details)"

definition process_cards :: "crawl_params \<Rightarrow> crawl_state \<Rightarrow> card list \<Rightarrow> crawl_state" where
  "process_cards P st cards = foldl (process_card P) st cards"

text \<open>
  The pagination: after the cards of a page, a next-page link is followed unless
  \<^verbatim>\<open>ret_date\<close>, the date of the last card read, is there and is before the start date.
\<close>

definition stop_signal :: "crawl_params \<Rightarrow> crawl_state \<Rightarrow> bool" where
  "stop_signal P st = (case ret_date st of None \<Rightarrow> False | Some r \<Rightarrow> r < start_date P)"

fun crawl_listing :: "crawl_params \<Rightarrow> listing \<Rightarrow> crawl_state \<Rightarrow> crawl_state" where
  "crawl_listing P Unreachable st =
     st\<lparr>requests := Suc (requests st), error_link := Suc (error_link st)\<rparr>"
| "crawl_listing P (LastPage cards) st =
     process_cards P (st\<lparr>requests := Suc (requests st)\<rparr>) cards"
| "crawl_listing P (Page cards next_page) st =
     (let st1 = process_cards P (st\<lparr>requests := Suc (requests st)\<rparr>) cards
      in if stop_signal P st1 then st1 else crawl_listing P next_page st1)"

definition crawl_stream :: "crawl_params \<Rightarrow> listing \<Rightarrow> crawl_state" where
  "crawl_stream P l =
     crawl_listing P l \<lparr>card_infos = [], ret_date = None, requests = 0, error_link = 0\<rparr>"

text \<open>The pages of a stream in the order of the next-page links, and their dates.\<close>

fun pages :: "listing \<Rightarrow> card list list" where
  "pages Unreachable = []"
| "pages (LastPage cards) = [cards]"
| "pages (Page cards next_page) = cards # pages next_page"

fun card_date :: "card \<Rightarrow> int option" where
  "card_date Untitled = None"
| "card_date (Card t l pub_date details) = pub_date"

definition in_window :: "crawl_params \<Rightarrow> int \<Rightarrow> bool" where
  "in_window P d \<longleftrightarrow> start_date P \<le> d \<and> d \<le> end_date P"

text \<open>
  A plain card has a title, a date and details, and is neither in the database nor in
  the non-relevant set: nothing but the window decides whether it is collected.
\<close>

fun plain :: "crawl_params \<Rightarrow> card \<Rightarrow> bool" where
  "plain P Untitled = False"
| "plain P (Card t l pub_date details) =
     (pub_date \<noteq> None \<and> details \<noteq> None \<and> \<not> paper_exists P (last_segment l)
      \<and> (t, l) \<notin> non_ai_set P)"

definition page_dates :: "card list \<Rightarrow> int list" where
  "page_dates cards = map (\<lambda>c. the (card_date c)) cards"

definition stream_dates :: "listing \<Rightarrow> int list" where
  "stream_dates l = page_dates (concat (pages l))"

definition has_older :: "crawl_params \<Rightarrow> card list \<Rightarrow> bool" where
  "has_older P cards \<longleftrightarrow> (\<exists>d \<in> set (page_dates cards). d < start_date P)"

definition example_card :: "nat \<Rightarrow> card" where
  "example_card d = Card (''paper '' @ str d) (''https://www.nature.com/articles/s'' @ str d)
     (Some (int d)) (Some (''abstract'', ''authors''))"

definition example_params :: crawl_params where
  "example_params = \<lparr>start_date = 6, end_date = 11, paper_exists = (\<lambda>d. False),
     non_ai_set = {}, crawl_journal = ''Nature'', article_type = ''research-articles''\<rparr>"

definition example_stream_single :: listing where
  "example_stream_single =
     Page [example_card 10] (Page [example_card 9] (Page [example_card 8]
       (Page [example_card 5] (LastPage [example_card 1]))))"

definition example_stream_split :: listing where
  "example_stream_split =
     Page [example_card 10, example_card 9, example_card 8]
       (LastPage [example_card 5, example_card 1])"


text \<open>An item passes the window when it has no date or its date is inside.\<close>

definition date_ok :: "crawl_params \<Rightarrow> item \<Rightarrow> bool" where
  "date_ok P it = (case date it of None \<Rightarrow> True | Some d \<Rightarrow> in_window P d)"

definition titled :: "card list \<Rightarrow> card list" where
  "titled cards = filter (\<lambda>c. c \<noteq> Untitled) cards"

subsection \<open>Properties of the crawl\<close>

lemma keep_card_fields:
  "ret_date (keep_card P st t l d details) = ret_date st"
  "requests (keep_card P st t l d details) = requests st"
  "error_link (keep_card P st t l d details) = error_link st"
  by (simp_all add: keep_card_def split: option.split prod.split)

lemma process_card_requests:
  "requests (process_card P st c) = requests st"
  "error_link (process_card P st c) = error_link st"
  by (cases c; simp add: keep_card_fields Let_def split: option.split)+

lemma process_cards_requests:
  "requests (process_cards P st cs) = requests st"
  unfolding process_cards_def
  by (induction cs arbitrary: st) (simp_all add: process_card_requests)

lemma keep_card_date_ok:
  assumes "\<forall>it \<in> set (card_infos st). date_ok P it"
    and "case d of None \<Rightarrow> True | Some x \<Rightarrow> in_window P x"
  shows "\<forall>it \<in> set (card_infos (keep_card P st t l d details)). date_ok P it"
  using assms
  by (auto simp: keep_card_def card_info_def date_ok_def split: option.split prod.split)

lemma process_card_date_ok:
  assumes "\<forall>it \<in> set (card_infos st). date_ok P it"
  shows "\<forall>it \<in> set (card_infos (process_card P st c)). date_ok P it"
proof (cases c)
  case Untitled
  with assms show ?thesis by simp
next
  case (Card t l d details)
  show ?thesis
  proof (cases d)
    case None
    with Card assms show ?thesis
      using keep_card_date_ok [of "st\<lparr>ret_date := None\<rparr>" P None t l details]
      by (simp add: Let_def)
  next
    case (Some x)
    show ?thesis
    proof (cases "x < start_date P \<or> end_date P < x")
      case True
      with Card Some assms show ?thesis by (auto simp: Let_def)
    next
      case False
      then have "in_window P x" by (simp add: in_window_def)
      with Card Some False assms show ?thesis
        using keep_card_date_ok [of "st\<lparr>ret_date := Some x\<rparr>" P "Some x" t l details]
        by (simp add: Let_def)
    qed
  qed
qed

lemma process_cards_date_ok:
  "\<forall>it \<in> set (card_infos st). date_ok P it \<Longrightarrow>
   \<forall>it \<in> set (card_infos (process_cards P st cs)). date_ok P it"
  unfolding process_cards_def
proof (induction cs arbitrary: st)
  case Nil
  then show ?case by simp
next
  case (Cons c cs)
  from Cons.prems have "\<forall>it \<in> set (card_infos (process_card P st c)). date_ok P it"
    by (rule process_card_date_ok)
  then show ?case using Cons.IH by simp
qed

lemma crawl_listing_date_ok:
  "\<forall>it \<in> set (card_infos st). date_ok P it \<Longrightarrow>
   \<forall>it \<in> set (card_infos (crawl_listing P l st)). date_ok P it"
proof (induction l arbitrary: st)
  case Unreachable
  then show ?case by simp
next
  case (LastPage cs)
  then show ?case
    using process_cards_date_ok [of "st\<lparr>requests := Suc (requests st)\<rparr>" P cs] by simp
next
  case (Page cs nxt)
  have 1: "\<forall>it \<in> set (card_infos (process_cards P (st\<lparr>requests := Suc (requests st)\<rparr>) cs)). date_ok P it"
    using Page.prems process_cards_date_ok [of "st\<lparr>requests := Suc (requests st)\<rparr>" P cs] by simp
  show ?case
    using 1 Page.IH [OF 1] by (simp add: Let_def)
qed

lemma plain_card_step:
  assumes "plain P c"
  shows "map date (card_infos (process_card P st c)) =
         map date (card_infos st) @ map Some (filter (in_window P) [the (card_date c)])"
    and "ret_date (process_card P st c) = card_date c"
    and "card_date c \<noteq> None"
proof -
  from assms obtain t l d a au where c: "c = Card t l (Some d) (Some (a, au))"
    and ne: "\<not> paper_exists P (last_segment l)" "(t, l) \<notin> non_ai_set P"
    by (cases c) auto
  show "map date (card_infos (process_card P st c)) =
         map date (card_infos st) @ map Some (filter (in_window P) [the (card_date c)])"
    using ne by (auto simp: c keep_card_def card_info_def in_window_def Let_def)
  show "ret_date (process_card P st c) = card_date c"
    by (simp add: c keep_card_fields Let_def)
  show "card_date c \<noteq> None" by (simp add: c)
qed

lemma plain_cards_steps:
  assumes "\<forall>c \<in> set cs. plain P c"
  shows "map date (card_infos (process_cards P st cs)) =
         map date (card_infos st) @ map Some (filter (in_window P) (page_dates cs))
       \<and> ret_date (process_cards P st cs) = (if cs = [] then ret_date st else Some (last (page_dates cs)))"
  using assms unfolding process_cards_def
proof (induction cs arbitrary: st)
  case Nil
  then show ?case by (simp add: page_dates_def)
next
  case (Cons c cs)
  then have pc: "plain P c" and rest: "\<forall>c \<in> set cs. plain P c" by simp_all
  from plain_card_step(3) [OF pc] obtain d where d: "card_date c = Some d" by auto
  from Cons.IH [OF rest, of "process_card P st c"]
    plain_card_step(1) [OF pc, of st] plain_card_step(2) [OF pc, of st] d
  show ?case
    by (simp add: page_dates_def)
qed


lemma last_le_all:
  assumes "sorted (rev xs)" and "x \<in> set xs"
  shows "last xs \<le> (x::int)"
proof -
  from assms(2) have ne: "xs \<noteq> []" by auto
  then have xs: "xs = butlast xs @ [last xs]" by simp
  then have "rev xs = last xs # rev (butlast xs)"
    by (metis rev.simps(2) rev_rev_ident rev_singleton_conv rev_append append_Cons append_Nil)
  with assms(1) have "\<forall>y \<in> set (butlast xs). last xs \<le> y" by simp
  moreover from xs assms(2) have "x \<in> set (butlast xs) \<or> x = last xs"
    by (metis Un_iff insert_iff list.set(2) set_append empty_iff list.set(1))
  ultimately show ?thesis by auto
qed

lemma stream_dates_Page:
  "stream_dates (Page cs nxt) = page_dates cs @ stream_dates nxt"
  by (simp add: stream_dates_def page_dates_def)

lemma monotone_crawl:
  assumes "\<forall>c \<in> set (concat (pages l)). plain P c"
    and "sorted (rev (stream_dates l))"
    and "\<not> stop_signal P st"
  shows "map date (card_infos (crawl_listing P l st)) =
           map date (card_infos st) @ map Some (filter (in_window P) (stream_dates l))
       \<and> requests (crawl_listing P l st) \<le>
           requests st + Suc (length (takeWhile (\<lambda>cs. \<not> has_older P cs) (pages l)))"
  using assms
proof (induction l arbitrary: st)
  case Unreachable
  then show ?case by (simp add: stream_dates_def page_dates_def)
next
  case (LastPage cs)
  then have pl: "\<forall>c \<in> set cs. plain P c" by simp
  show ?case
    using plain_cards_steps [OF pl, of "st\<lparr>requests := Suc (requests st)\<rparr>"]
    by (simp add: stream_dates_def process_cards_requests)
next
  case (Page cs nxt)
  let ?st' = "st\<lparr>requests := Suc (requests st)\<rparr>"
  let ?st1 = "process_cards P ?st' cs"
  from Page.prems(1) have pl: "\<forall>c \<in> set cs. plain P c"
    and pl_nxt: "\<forall>c \<in> set (concat (pages nxt)). plain P c" by simp_all
  from Page.prems(2) have srt: "sorted (rev (stream_dates nxt))"
    and srt_cs: "sorted (rev (page_dates cs))"
    and cross: "\<forall>b \<in> set (stream_dates nxt). \<forall>a \<in> set (page_dates cs). b \<le> a"
    by (simp_all add: stream_dates_Page sorted_append)
  note steps = plain_cards_steps [OF pl, of ?st']
  have items: "map date (card_infos ?st1) =
      map date (card_infos st) @ map Some (filter (in_window P) (page_dates cs))"
    using steps by simp
  have ret: "ret_date ?st1 = (if cs = [] then ret_date st else Some (last (page_dates cs)))"
    using steps by simp
  have req: "requests ?st1 = Suc (requests st)"
    by (simp add: process_cards_requests)
  show ?case
  proof (cases "stop_signal P ?st1")
    case True
    have ne: "cs \<noteq> []"
    proof
      assume "cs = []"
      with ret True have "stop_signal P st" by (simp add: stop_signal_def)
      with Page.prems(3) show False by simp
    qed
    with ret True have old: "last (page_dates cs) < start_date P"
      by (simp add: stop_signal_def)
    from ne have "page_dates cs \<noteq> []" by (simp add: page_dates_def)
    then have "last (page_dates cs) \<in> set (page_dates cs)"
      by (rule last_in_set)
    with cross old have "\<forall>b \<in> set (stream_dates nxt). \<not> in_window P b"
      by (fastforce simp: in_window_def)
    then have "filter (in_window P) (stream_dates nxt) = []"
      by (simp add: filter_empty_conv)
    with True items req show ?thesis
      by (simp add: stream_dates_Page Let_def)
  next
    case False
    note IH = Page.IH [OF pl_nxt srt False]
    have no_old: "\<not> has_older P cs"
    proof
      assume "has_older P cs"
      then obtain d where d: "d \<in> set (page_dates cs)" "d < start_date P"
        by (auto simp: has_older_def)
      then have ne: "cs \<noteq> []" by (auto simp: page_dates_def)
      from last_le_all [OF srt_cs d(1)] d(2) have "last (page_dates cs) < start_date P" by simp
      with ret ne have "stop_signal P ?st1" by (simp add: stop_signal_def)
      with False show False by simp
    qed
    from IH items req False no_old show ?thesis
      by (simp add: stream_dates_Page Let_def)
  qed
qed

lemma process_cards_snoc:
  "process_cards P st (cs @ [c]) = process_card P (process_cards P st cs) c"
  by (simp add: process_cards_def)

lemma ret_date_process_card:
  "ret_date (process_card P st c) = (if c = Untitled then ret_date st else card_date c)"
  by (cases c) (simp_all add: keep_card_fields Let_def split: option.split)

lemma ret_date_process_cards:
  "ret_date (process_cards P st cs) =
   (if titled cs = [] then ret_date st else card_date (last (titled cs)))"
proof (induction cs rule: rev_induct)
  case Nil
  show ?case by (simp add: process_cards_def titled_def)
next
  case (snoc c cs)
  show ?case
  proof (cases "c = Untitled")
    case True
    with snoc show ?thesis
      by (simp add: process_cards_snoc ret_date_process_card titled_def)
  next
    case False
    then show ?thesis
      by (simp add: process_cards_snoc ret_date_process_card titled_def)
  qed
qed

lemma keep_card_grows:
  "set (card_infos st) \<subseteq> set (card_infos (keep_card P st t l d details))"
  by (auto simp: keep_card_def split: option.split prod.split)

lemma process_card_grows:
  "set (card_infos st) \<subseteq> set (card_infos (process_card P st c))"
proof (cases c)
  case Untitled
  then show ?thesis by simp
next
  case (Card t l d details)
  show ?thesis
    using keep_card_grows [of "st\<lparr>ret_date := d\<rparr>" P t l d details]
    by (cases d) (auto simp: Card Let_def)
qed

lemma process_cards_grows:
  "set (card_infos st) \<subseteq> set (card_infos (process_cards P st cs))"
proof (induction cs rule: rev_induct)
  case Nil
  show ?case by (simp add: process_cards_def)
next
  case (snoc c cs)
  with process_card_grows [of "process_cards P st cs" P c] show ?case
    by (auto simp: process_cards_snoc)
qed

lemma crawl_listing_grows:
  "set (card_infos st) \<subseteq> set (card_infos (crawl_listing P l st))"
proof (induction l arbitrary: st)
  case Unreachable
  show ?case by simp
next
  case (LastPage cs)
  show ?case
    using process_cards_grows [of "st\<lparr>requests := Suc (requests st)\<rparr>" P cs] by simp
next
  case (Page cs nxt)
  have "set (card_infos st) \<subseteq>
      set (card_infos (process_cards P (st\<lparr>requests := Suc (requests st)\<rparr>) cs))"
    using process_cards_grows [of "st\<lparr>requests := Suc (requests st)\<rparr>" P cs] by simp
  with Page.IH [of "process_cards P (st\<lparr>requests := Suc (requests st)\<rparr>) cs"]
  show ?case by (auto simp: Let_def)
qed


lemma process_cards_member:
  assumes "c \<in> set cs" and "\<And>st. x \<in> set (card_infos (process_card P st c))"
  shows "x \<in> set (card_infos (process_cards P st cs))"
  using assms(1)
proof (induction cs rule: rev_induct)
  case Nil
  then show ?case by simp
next
  case (snoc c' cs)
  show ?case
  proof (cases "c = c'")
    case True
    with assms(2) show ?thesis by (simp add: process_cards_snoc)
  next
    case False
    with snoc have "x \<in> set (card_infos (process_cards P st cs))" by simp
    with process_card_grows [of "process_cards P st cs" P c'] show ?thesis
      by (auto simp: process_cards_snoc)
  qed
qed

lemma undated_card_kept:
  assumes "\<not> paper_exists P (last_segment l)" and "(t, l) \<notin> non_ai_set P"
  shows "process_card P st (Card t l None (Some (a, au))) =
          st\<lparr>ret_date := None, card_infos := card_infos st @ [card_info P t l None a au]\<rparr>"
  using assms by (simp add: keep_card_def)

lemma undated_card_in_first_page:
  assumes "\<not> paper_exists P (last_segment l)" and "(t, l) \<notin> non_ai_set P"
    and "Card t l None (Some (a, au)) \<in> set cs"
  shows "card_info P t l None a au \<in> set (card_infos (crawl_stream P (LastPage cs)))"
    and "card_info P t l None a au \<in> set (card_infos (crawl_stream P (Page cs nxt)))"
proof -
  let ?st0 = "\<lparr>card_infos = [], ret_date = None, requests = Suc 0, error_link = 0\<rparr>"
  have m: "card_info P t l None a au \<in> set (card_infos (process_cards P ?st0 cs))"
    using assms(3)
  proof (rule process_cards_member)
    fix st
    show "card_info P t l None a au \<in> set (card_infos (process_card P st (Card t l None (Some (a, au)))))"
      by (subst undated_card_kept [OF assms(1,2)]) simp
  qed
  then show "card_info P t l None a au \<in> set (card_infos (crawl_stream P (LastPage cs)))"
    by (simp add: crawl_stream_def)
  from m crawl_listing_grows [of "process_cards P ?st0 cs" P nxt]
  show "card_info P t l None a au \<in> set (card_infos (crawl_stream P (Page cs nxt)))"
    by (auto simp: crawl_stream_def Let_def)
qed

text \<open>
  C4, as the code has it. (1) Every collected item either has no date or has its date
  inside the inclusive window. (2) When the last titled card of a page has a date
  strictly before the start date, the next-page link is not followed: the crawl ends as
  if the page were the last. (3) For a stream of plain cards whose dates never increase,
  the collected dates are exactly the dates of the stream inside the window, and the
  number of pages requested is at most one more than the number of leading pages holding
  no item older than the start date: no page beyond the first page holding an older item
  is requested.
\<close>

theorem windowed_crawl:
  "(\<forall>it \<in> set (card_infos (crawl_stream P l)). date_ok P it)
   \<and> (titled cs \<noteq> [] \<and> card_date (last (titled cs)) = Some d \<and> d < start_date P \<longrightarrow>
        crawl_listing P (Page cs nxt) st = crawl_listing P (LastPage cs) st
        \<and> requests (crawl_listing P (Page cs nxt) st) = Suc (requests st))
   \<and> ((\<forall>c \<in> set (concat (pages l)). plain P c) \<and> sorted (rev (stream_dates l)) \<longrightarrow>
        map date (card_infos (crawl_stream P l)) = map Some (filter (in_window P) (stream_dates l))
        \<and> requests (crawl_stream P l) \<le>
            Suc (length (takeWhile (\<lambda>cs. \<not> has_older P cs) (pages l))))"
proof -
  have a: "\<forall>it \<in> set (card_infos (crawl_stream P l)). date_ok P it"
    unfolding crawl_stream_def by (rule crawl_listing_date_ok) simp
  have b: "crawl_listing P (Page cs nxt) st = crawl_listing P (LastPage cs) st
      \<and> requests (crawl_listing P (Page cs nxt) st) = Suc (requests st)"
    if "titled cs \<noteq> []" "card_date (last (titled cs)) = Some d" "d < start_date P"
  proof -
    from that have "stop_signal P (process_cards P (st\<lparr>requests := Suc (requests st)\<rparr>) cs)"
      by (simp add: stop_signal_def ret_date_process_cards)
    then show ?thesis by (simp add: Let_def process_cards_requests)
  qed
  have c: "map date (card_infos (crawl_stream P l)) = map Some (filter (in_window P) (stream_dates l))
      \<and> requests (crawl_stream P l) \<le> Suc (length (takeWhile (\<lambda>cs. \<not> has_older P cs) (pages l)))"
    if "\<forall>c \<in> set (concat (pages l)). plain P c" "sorted (rev (stream_dates l))"
    using monotone_crawl [OF that, of "\<lparr>card_infos = [], ret_date = None, requests = 0, error_link = 0\<rparr>"]
    by (simp add: crawl_stream_def stop_signal_def)
  from a b c show ?thesis by blast
qed

theorem windowed_crawl_witness:
  "sorted (rev (stream_dates example_stream_single))
   \<and> map date (card_infos (crawl_stream example_params example_stream_single)) =
       [Some 10, Some 9, Some 8]
   \<and> requests (crawl_stream example_params example_stream_single) \<le> 4
   \<and> requests (crawl_listing example_params (Page [example_card 5] (LastPage [example_card 1]))
        \<lparr>card_infos = [], ret_date = None, requests = 3, error_link = 0\<rparr>) = 4"
proof -
  have p: "\<forall>c \<in> set (concat (pages example_stream_single)). plain example_params c"
    by code_simp
  have s: "sorted (rev (stream_dates example_stream_single))"
    by code_simp
  have f: "filter (in_window example_params) (stream_dates example_stream_single) = [10, 9, 8]"
    by code_simp
  have k: "length (takeWhile (\<lambda>cs. \<not> has_older example_params cs)
      (pages example_stream_single)) = 3"
    by code_simp
  have t: "titled [example_card 5] \<noteq> [] \<and> card_date (last (titled [example_card 5])) = Some 5
      \<and> (5::int) < start_date example_params"
    by code_simp
  note w = windowed_crawl [where ?P = example_params and ?l = example_stream_single
      and ?cs = "[example_card 5]" and ?d = 5 and ?nxt = "LastPage [example_card 1]"
      and ?st = "\<lparr>card_infos = [], ret_date = None, requests = 3, error_link = 0\<rparr>"]
  from w t have a: "requests (crawl_listing example_params
      (Page [example_card 5] (LastPage [example_card 1]))
      \<lparr>card_infos = [], ret_date = None, requests = 3, error_link = 0\<rparr>) =
      Suc (requests \<lparr>card_infos = [], ret_date = None, requests = 3, error_link = 0\<rparr>)"
    by blast
  from w p s have b: "map date (card_infos (crawl_stream example_params example_stream_single)) =
      map Some (filter (in_window example_params) (stream_dates example_stream_single))
      \<and> requests (crawl_stream example_params example_stream_single) \<le>
        Suc (length (takeWhile (\<lambda>cs. \<not> has_older example_params cs)
          (pages example_stream_single)))"
    by blast
  from a b f k s show ?thesis
    by (simp del: crawl_listing.simps)
qed

text \<open>
  The claim's example, with the items dated 10, 9, 8 on the first page and those dated
  5 and 1 on the second: the crawl collects 10, 9, 8 and requests the second page, which
  lies beyond the page holding the item dated 8.
\<close>

theorem crawl_visits_page_after_last_match:
  "pages example_stream_split =
     [[example_card 10, example_card 9, example_card 8], [example_card 5, example_card 1]]
   \<and> map date (card_infos (crawl_stream example_params example_stream_split)) =
       [Some 10, Some 9, Some 8]
   \<and> requests (crawl_stream example_params example_stream_split) = 2
   \<and> \<not> requests (crawl_stream example_params example_stream_split) \<le> 1"
  by code_simp

text \<open>
  C10. A card without a parsed date is treated the same under every window: it is
  collected whenever its details are fetched and it is neither in the database nor in
  the non-relevant set, and then it is in the candidate list of any stream whose first
  page holds it. A dated card is compared with the window: outside it is skipped,
  inside it goes through the same duplicate checks.
\<close>

theorem undated_card_bypasses_window:
  "process_card (P\<lparr>start_date := s, end_date := e\<rparr>) st (Card t l None details) =
     process_card P st (Card t l None details)
   \<and> (\<not> paper_exists P (last_segment l) \<and> (t, l) \<notin> non_ai_set P \<longrightarrow>
        process_card P st (Card t l None (Some (a, au))) =
          st\<lparr>ret_date := None, card_infos := card_infos st @ [card_info P t l None a au]\<rparr>
        \<and> (Card t l None (Some (a, au)) \<in> set cs \<longrightarrow>
             card_info P t l None a au \<in> set (card_infos (crawl_stream P (LastPage cs)))
             \<and> card_info P t l None a au \<in> set (card_infos (crawl_stream P (Page cs nxt)))))
   \<and> (d < start_date P \<or> end_date P < d \<longrightarrow>
        process_card P st (Card t l (Some d) details) = st\<lparr>ret_date := Some d\<rparr>)
   \<and> (start_date P \<le> d \<and> d \<le> end_date P \<longrightarrow>
        process_card P st (Card t l (Some d) details) =
          keep_card P (st\<lparr>ret_date := Some d\<rparr>) t l (Some d) details)"
proof -
  have 1: "process_card (P\<lparr>start_date := s, end_date := e\<rparr>) st (Card t l None details) =
     process_card P st (Card t l None details)"
    by (simp add: keep_card_def card_info_def Let_def split: option.split prod.split)
  have 3: "process_card P st (Card t l (Some d) details) = st\<lparr>ret_date := Some d\<rparr>"
    if "d < start_date P \<or> end_date P < d"
    using that by (auto simp: Let_def)
  have 4: "process_card P st (Card t l (Some d) details) =
          keep_card P (st\<lparr>ret_date := Some d\<rparr>) t l (Some d) details"
    if "start_date P \<le> d \<and> d \<le> end_date P"
    using that by (auto simp: Let_def)
  have 2: "process_card P st (Card t l None (Some (a, au))) =
          st\<lparr>ret_date := None, card_infos := card_infos st @ [card_info P t l None a au]\<rparr>"
    if "\<not> paper_exists P (last_segment l)" "(t, l) \<notin> non_ai_set P"
    using that by (rule undated_card_kept)
  have 5: "card_info P t l None a au \<in> set (card_infos (crawl_stream P (LastPage cs)))
      \<and> card_info P t l None a au \<in> set (card_infos (crawl_stream P (Page cs nxt)))"
    if "\<not> paper_exists P (last_segment l)" "(t, l) \<notin> non_ai_set P"
      "Card t l None (Some (a, au)) \<in> set cs"
    using undated_card_in_first_page(1) [OF that] undated_card_in_first_page(2) [OF that]
    by simp
  show ?thesis
    using 1 2 3 4 5 by blast
qed

theorem undated_card_bypasses_window_witness:
  "map date (card_infos (crawl_stream example_params
      (LastPage [example_card 10, Card ''undated'' ''https://www.nature.com/articles/u1'' None
         (Some (''abstract'', ''authors'')), example_card 5]))) = [Some 10, None]
   \<and> card_info example_params ''undated'' ''https://www.nature.com/articles/u1'' None
        ''abstract'' ''authors''
      \<in> set (card_infos (crawl_stream example_params
          (LastPage [example_card 10, Card ''undated'' ''https://www.nature.com/articles/u1'' None
             (Some (''abstract'', ''authors'')), example_card 5])))"
proof -
  have r: "map date (card_infos (crawl_stream example_params
      (LastPage [example_card 10, Card ''undated'' ''https://www.nature.com/articles/u1'' None
         (Some (''abstract'', ''authors'')), example_card 5]))) = [Some 10, None]"
    by code_simp
  have h: "\<not> paper_exists example_params (last_segment ''https://www.nature.com/articles/u1'')
      \<and> (''undated'', ''https://www.nature.com/articles/u1'') \<notin> non_ai_set example_params"
    by (simp add: example_params_def)
  have m: "Card ''undated'' ''https://www.nature.com/articles/u1'' None (Some (''abstract'', ''authors''))
      \<in> set [example_card 10, Card ''undated'' ''https://www.nature.com/articles/u1'' None
         (Some (''abstract'', ''authors'')), example_card 5]"
    by simp
  show ?thesis
    using r h m
      undated_card_bypasses_window [where ?P = example_params and ?t = "''undated''"
        and ?l = "''https://www.nature.com/articles/u1''" and ?a = "''abstract''"
        and ?au = "''authors''"
        and ?cs = "[example_card 10, Card ''undated'' ''https://www.nature.com/articles/u1'' None
           (Some (''abstract'', ''authors'')), example_card 5]"]
    by blast
qed


section \<open>The articles returned by NatureParser.scrape\_journal (parser.py)\<close>

text \<open>
  \<^verbatim>\<open>scrape_journal\<close> as a whole: for each of the two article types it crawls the listing
  stream and, when it has a paper agent and the crawl collected something, runs its own
  copy of the two-pass loop, which appends the relevant items to \<^verbatim>\<open>articles\<close> and
  writes the non-relevant ones to \<^verbatim>\<open>exports/json/non_ai_papers.json\<close>. After the loop
  over the article types comes

  \<^verbatim>\<open>        else:\<close>\<^verbatim>\<open> articles.extend(card_infos)\<close>

  at the indentation of \<^verbatim>\<open>for article_type in article_types\<close>. The \<^verbatim>\<open>for\<close> has no
  \<^verbatim>\<open>break\<close>, so this branch always runs, with \<^verbatim>\<open>card_infos\<close> as the last article type
  left it. Its comment says it is meant for the parser without an agent. Then the list
  is sorted and returned.

  The state of the function: \<^verbatim>\<open>articles\<close>, \<^verbatim>\<open>non_ai_articles\<close> and \<^verbatim>\<open>card_infos\<close> (whose
  dictionaries the loop changes in place, so the list holds the items with their ids
  and reasons), the single-item calls made to the agent, \<^verbatim>\<open>self.non_ai_set\<close>, and the
  (title, link) pairs in the lines of the file of non-relevant papers.
\<close>

record scrape_state =
  articles :: "item list"
  non_ai_articles :: "item list"
  last_card_infos :: "item list"
  agent_calls :: "(string \<times> string) list"
  known_non_ai :: "(string \<times> string) set"
  non_ai_file :: "(string \<times> string) list"

text \<open>What the outside gives for one article type: the listing stream and the results
  of the two batch passes.\<close>

record type_input =
  stream :: listing
  pass1 :: "vote list"
  pass2 :: "vote list"

text \<open>The body of \<^verbatim>\<open>for item in card_infos\<close> of the parser's copy of the loop.\<close>

definition nature_item ::
  "agent \<Rightarrow> (string \<rightharpoonup> vote) \<Rightarrow> (string \<rightharpoonup> vote) \<Rightarrow> scrape_state \<Rightarrow> item \<Rightarrow> scrape_state" where
  "nature_item ag r1_map r2_map st it =
     (case (r1_map (item_id it), r2_map (item_id it)) of
        (Some r1, Some r2) \<Rightarrow>
          if is_ai_related r1 \<and> is_ai_related r2
          then let it' = it\<lparr>item_reason := Some (explanation r1)\<rparr>
               in st\<lparr>articles := articles st @ [it'],
                     last_card_infos := last_card_infos st @ [it']\<rparr>
          else if \<not> is_ai_related r1 \<and> \<not> is_ai_related r2
          then let it' = it\<lparr>item_reason := Some (explanation r1)\<rparr>
               in st\<lparr>non_ai_articles := non_ai_articles st @ [it'],
                     last_card_infos := last_card_infos st @ [it']\<rparr>
          else
            let rv = ag (length (agent_calls st)) (title it) (abstract it);
                it' = it\<lparr>item_reason :=
                        Some (case review_explanation rv of None \<Rightarrow> ''reviewed'' | Some e \<Rightarrow> e)\<rparr>;
                st' = st\<lparr>agent_calls := agent_calls st @ [(title it, abstract it)],
                         last_card_infos := last_card_infos st @ [it']\<rparr>
            in if review_is_ai_related rv
               then st'\<lparr>articles := articles st' @ [it']\<rparr>
               else st'\<lparr>non_ai_articles := non_ai_articles st' @ [it']\<rparr>
      | _ \<Rightarrow> st\<lparr>last_card_infos := last_card_infos st @ [it]\<rparr>)"

text \<open>
  One pass of \<^verbatim>\<open>for article_type in article_types\<close>. \<^verbatim>\<open>load_non_ai_set\<close> adds the pairs of
  the file to \<^verbatim>\<open>self.non_ai_set\<close>; \<^verbatim>\<open>non_ai_articles\<close> and \<^verbatim>\<open>card_infos\<close> start empty. The
  lines written to the file take the address from the \<^verbatim>\<open>'url'\<close> key, which every item
  made by \<open>card_info\<close> has.
\<close>

definition scrape_type ::
  "agent option \<Rightarrow> crawl_params \<Rightarrow> scrape_state \<Rightarrow> string \<times> type_input \<Rightarrow> scrape_state" where
  "scrape_type paper_agent P st ti =
     (let known = known_non_ai st \<union> set (non_ai_file st);
          cs = card_infos (crawl_stream (P\<lparr>non_ai_set := known, article_type := fst ti\<rparr>)
                 (stream (snd ti)));
          st0 = st\<lparr>non_ai_articles := [], last_card_infos := cs, known_non_ai := known\<rparr>
      in case paper_agent of
           None \<Rightarrow> st0
         | Some ag \<Rightarrow>
             if cs = [] then st0
             else
               let st1 = foldl (nature_item ag (result_map (pass1 (snd ti)))
                                  (result_map (pass2 (snd ti))))
                           (st0\<lparr>last_card_infos := []\<rparr>) (assign_ids 1 cs)
               in st1\<lparr>non_ai_file := non_ai_file st1
                         @ map (\<lambda>it. (title it, the (item_url it))) (non_ai_articles st1)\<rparr>)"

text \<open>
  The whole function: the two article types in order, the \<^verbatim>\<open>else\<close> of the \<^verbatim>\<open>for\<close>, and
  the final sort. The result is the list returned, or the error the sort raises,
  together with the state the run leaves.
\<close>

definition scrape_journal ::
  "agent option \<Rightarrow> crawl_params \<Rightarrow> (string \<times> string) list \<Rightarrow> type_input \<Rightarrow> type_input
     \<Rightarrow> (py_error + item list) \<times> scrape_state" where
  "scrape_journal paper_agent P file news research =
     (let st = foldl (scrape_type paper_agent P)
                 \<lparr>articles = [], non_ai_articles = [], last_card_infos = [], agent_calls = [],
                  known_non_ai = non_ai_set P, non_ai_file = file\<rparr>
                 [(''news-and-comment'', news), (''research-articles'', research)];
          st' = st\<lparr>articles := articles st @ last_card_infos st\<rparr>
      in (nature_sort (articles st'), st'))"

text \<open>An article as the crawl of the example stream collects it and the loop marks it:
  the card dated \<open>d\<close>, numbered \<open>i\<close>, with the explanation of pass A as its reason.\<close>

definition example_article :: "nat \<Rightarrow> string \<Rightarrow> item" where
  "example_article d i =
     (card_info example_params (''paper '' @ str d) (''https://www.nature.com/articles/s'' @ str d)
        (Some (int d)) ''abstract'' ''authors'')\<lparr>item_id := i, item_reason := Some (''pass says '' @ i)\<rparr>"

text \<open>An article type whose listing has no cards.\<close>

definition no_cards :: type_input where
  "no_cards = \<lparr>stream = LastPage [], pass1 = [], pass2 = []\<rparr>"

text \<open>Two research articles, dated day 10 and day 9; both passes vote the first
  non-relevant and the second relevant.\<close>

definition example_research :: type_input where
  "example_research =
     \<lparr>stream = LastPage [example_card 10, example_card 9],
      pass1 = [example_vote ''1'' False, example_vote ''2'' True],
      pass2 = [example_vote ''1'' False, example_vote ''2'' True]\<rparr>"

text \<open>
  C2. The claim holds of the loop body, and of the lists the orchestrators keep
  (\<open>two_pass_branch\<close> above). It does not hold of what \<^verbatim>\<open>NatureParser.scrape_journal\<close>
  returns. With two research articles, the first voted non-relevant by both passes and
  the second relevant by both, no single-item call is made and the first article is
  written to the file of non-relevant papers; yet the list returned, the parser's
  relevant articles, holds the first article too, and the second twice.
\<close>

theorem scrape_journal_returns_non_relevant_item:
  "map is_ai_related (pass1 example_research) = [False, True]
   \<and> map is_ai_related (pass2 example_research) = [False, True]
   \<and> fst (scrape_journal (Some example_agent) example_params [] no_cards example_research)
       = Inr [example_article 10 ''1'', example_article 9 ''2'', example_article 9 ''2'']
   \<and> agent_calls (snd (scrape_journal (Some example_agent) example_params [] no_cards
        example_research)) = []
   \<and> non_ai_articles (snd (scrape_journal (Some example_agent) example_params [] no_cards
        example_research)) = [example_article 10 ''1'']
   \<and> non_ai_file (snd (scrape_journal (Some example_agent) example_params [] no_cards
        example_research)) = [(''paper 10'', ''https://www.nature.com/articles/s10'')]"
  by code_simp


section \<open>The order in which the orchestrators save (main\_forward.py, main\_backward.py)\<close>

text \<open>
  Both orchestrators build their \<^verbatim>\<open>card_infos\<close> from the papers the parser returned,
  classify them and call \<^verbatim>\<open>db.save_paper\<close> on the relevant ones in list order.
  main\_backward.py keeps the address under \<^verbatim>\<open>'link'\<close> and \<^verbatim>\<open>'url'\<close> ("keep the url
  field for saving to the database") and sorts the relevant items first ("sort by
  publication time, the earliest saved first"). main\_forward.py keeps the address
  under \<^verbatim>\<open>'link'\<close> only and does not sort.
\<close>

definition forward_card_info :: "item \<Rightarrow> item" where
  "forward_card_info paper =
     \<lparr>title = title paper, abstract = abstract paper, date = date paper, doi = doi paper,
      link = Some (case item_url paper of None \<Rightarrow> [] | Some u \<Rightarrow> u), item_url = None,
      authors = authors paper, item_type = ''full'', journal = None, item_id = [],
      item_reason = None, ai_relevant = None\<rparr>"

definition backward_card_info :: "item \<Rightarrow> item" where
  "backward_card_info paper =
     \<lparr>title = title paper, abstract = abstract paper, date = date paper, doi = doi paper,
      link = Some (case item_url paper of None \<Rightarrow> [] | Some u \<Rightarrow> u),
      item_url = Some (case item_url paper of None \<Rightarrow> [] | Some u \<Rightarrow> u),
      authors = authors paper, item_type = ''incremental'', journal = None, item_id = [],
      item_reason = None, ai_relevant = None\<rparr>"

text \<open>What is saved, in order, from the papers of one \<^verbatim>\<open>scrape_journal\<close> call.\<close>

definition saved_forward :: "agent \<Rightarrow> vote list \<Rightarrow> vote list \<Rightarrow> item list \<Rightarrow> item list" where
  "saved_forward ag result1 result2 papers =
     handoff_forward ag result1 result2 (map forward_card_info papers)"

definition saved_incremental ::
  "agent \<Rightarrow> vote list \<Rightarrow> vote list \<Rightarrow> item list \<Rightarrow> py_error + item list" where
  "saved_incremental ag result1 result2 papers =
     handoff_incremental ag result1 result2 (map backward_card_info papers)"

text \<open>
  Two news articles, dated day 10 and day 9, which both passes of the parser vote
  relevant, and the two papers the parser returns for them when there are no research
  articles: newest first.
\<close>

definition example_news :: type_input where
  "example_news =
     \<lparr>stream = LastPage [example_card 10, example_card 9],
      pass1 = example_pass_full, pass2 = example_pass_full\<rparr>"

definition example_papers :: "item list" where
  "example_papers =
     [(example_article 10 ''1'')\<lparr>item_type := ''news-and-comment''\<rparr>,
      (example_article 9 ''2'')\<lparr>item_type := ''news-and-comment''\<rparr>]"

text \<open>
  C3. The claim asks for the relevant items to be handed to the database earliest
  first. The full crawl (main\_forward.py) does not do so: of two papers dated day 10
  and day 9, which the parser returns newest first and both passes vote relevant, it
  saves the one of day 10 first. The incremental crawl (main\_backward.py), given the
  same papers and votes, saves the one of day 9 first.
\<close>

theorem forward_handoff_not_ascending:
  "fst (scrape_journal (Some example_agent) example_params [] example_news no_cards)
     = Inr example_papers
   \<and> map date example_papers = [Some 10, Some 9]
   \<and> map date (saved_forward example_agent example_pass_full example_pass_full example_papers)
       = [Some 10, Some 9]
   \<and> \<not> sorted_wrt date_le
         (saved_forward example_agent example_pass_full example_pass_full example_papers)
   \<and> map_sum id (map date)
         (saved_incremental example_agent example_pass_full example_pass_full example_papers)
       = Inr [Some 9, Some 10]"
proof -
  have n: "fst (scrape_journal (Some example_agent) example_params [] example_news no_cards)
      = Inr example_papers"
    by code_simp
  have d: "map date example_papers = [Some 10, Some 9]"
    by code_simp
  have f: "map date (saved_forward example_agent example_pass_full example_pass_full
      example_papers) = [Some 10, Some 9]"
    by code_simp
  then have h: "\<not> sorted_wrt date_le
      (saved_forward example_agent example_pass_full example_pass_full example_papers)"
    by (rule later_first_not_ascending) simp
  have i: "map_sum id (map date)
      (saved_incremental example_agent example_pass_full example_pass_full example_papers)
       = Inr [Some 9, Some 10]"
    by code_simp
  from n d f h i show ?thesis by simp
qed


section \<open>Relaxed fallback: the nearest volumes and issues (parser.py)\<close>























subsection \<open>Properties of the relaxed fallback\<close>


















section \<open>Persistence boundary (db.py)\<close>

text \<open>
  The table of a journal type, as \<^verbatim>\<open>_create_tables\<close> declares it, without the columns the
  server fills in (\<^verbatim>\<open>id\<close>, \<^verbatim>\<open>created_at\<close>, \<^verbatim>\<open>updated_at\<close>). \<open>None\<close> is SQL's \<^verbatim>\<open>NULL\<close>.
  The table is a list of rows in insertion order. Dates are day numbers.
\<close>

record row =
  row_title :: string
  row_abstract :: "string option"
  row_doi :: "string option"
  row_pub_date :: "int option"
  row_journal :: string
  row_url :: "string option"
  row_authors :: "string option"
  row_reason :: "string option"
  row_type :: string

type_synonym table = "row list"

text \<open>
  \<^verbatim>\<open>value.strip() == ''\<close>: the string is empty or all white space. Strings are byte
  strings holding UTF-8, so the white space beyond ASCII (U+0085, U+00A0, U+1680,
  U+2000 to U+200A, U+2028, U+2029, U+202F, U+205F, U+3000) is two or three bytes long.
\<close>

definition ascii_space :: "char \<Rightarrow> bool" where
  "ascii_space c \<longleftrightarrow> of_char c \<in> {9, 10, 11, 12, 13, 28, 29, 30, 31, 32 :: nat}"

definition two_byte_space :: "char \<Rightarrow> char \<Rightarrow> bool" where
  "two_byte_space c d \<longleftrightarrow> of_char c = (0xC2 :: nat) \<and> of_char d \<in> {0x85, 0xA0 :: nat}"

definition three_byte_space :: "char \<Rightarrow> char \<Rightarrow> char \<Rightarrow> bool" where
  "three_byte_space c d e \<longleftrightarrow>
     (of_char c = (0xE1 :: nat) \<and> of_char d = (0x9A :: nat) \<and> of_char e = (0x80 :: nat))
   \<or> (of_char c = (0xE2 :: nat) \<and> of_char d = (0x80 :: nat)
        \<and> ((0x80 :: nat) \<le> of_char e \<and> of_char e \<le> (0x8A :: nat)
           \<or> of_char e \<in> {0xA8, 0xA9, 0xAF :: nat}))
   \<or> (of_char c = (0xE2 :: nat) \<and> of_char d = (0x81 :: nat) \<and> of_char e = (0x9F :: nat))
   \<or> (of_char c = (0xE3 :: nat) \<and> of_char d = (0x80 :: nat) \<and> of_char e = (0x80 :: nat))"

fun blank :: "string \<Rightarrow> bool" where
  "blank [] = True"
| "blank [c] = ascii_space c"
| "blank [c, d] = (if ascii_space c then blank [d] else two_byte_space c d)"
| "blank (c # d # e # es) =
     (if ascii_space c then blank (d # e # es)
      else if two_byte_space c d then blank (e # es)
      else if three_byte_space c d e then blank es
      else False)"

text \<open>The helper \<^verbatim>\<open>clean_empty_string\<close> of \<^verbatim>\<open>save_paper\<close>, on a string.\<close>

definition clean_empty_string :: "string \<Rightarrow> string option" where
  "clean_empty_string v = (if blank v then None else Some v)"

text \<open>
  The value stored in the \<^verbatim>\<open>doi\<close> column: the DOI unless blank, else the value under
  \<^verbatim>\<open>'url'\<close> unless blank or missing (\<^verbatim>\<open>paper.get('url', '')\<close>), else \<^verbatim>\<open>NULL\<close>.
\<close>

definition url_value :: "item \<Rightarrow> string option" where
  "url_value paper = clean_empty_string (case item_url paper of None \<Rightarrow> [] | Some u \<Rightarrow> u)"

definition identity_key :: "item \<Rightarrow> string option" where
  "identity_key paper =
     (case clean_empty_string (doi paper) of
        None \<Rightarrow> url_value paper
      | Some d \<Rightarrow> Some d)"

text \<open>The title used when the item's title is empty: four Chinese characters, "unknown title".\<close>

definition unknown_title :: string where
  "unknown_title = map char_of
     [0xE6, 0x9C, 0xAA, 0xE7, 0x9F, 0xA5, 0xE6, 0xA0, 0x87, 0xE9, 0xA2, 0x98 :: nat]"

definition row_values :: "item \<Rightarrow> string \<Rightarrow> row" where
  "row_values paper jname =
     \<lparr>row_title = (if title paper = [] then unknown_title else title paper),
      row_abstract = clean_empty_string (abstract paper),
      row_doi = identity_key paper,
      row_pub_date = date paper,
      row_journal = jname,
      row_url = url_value paper,
      row_authors = clean_empty_string (authors paper),
      row_reason = clean_empty_string (case item_reason paper of None \<Rightarrow> [] | Some r \<Rightarrow> r),
      row_type = item_type paper\<rparr>"

text \<open>
  \<^verbatim>\<open>INSERT IGNORE\<close> into a table with \<^verbatim>\<open>UNIQUE KEY unique_doi (doi)\<close>: the row is left
  out, without an error, when a stored row has the same \<^verbatim>\<open>doi\<close>; a \<^verbatim>\<open>NULL\<close> never
  collides, as in MySQL. The result is the table and the row count of the statement.
  Keys are compared as they are (MySQL's collation and the width of the column are
  not modelled).
\<close>

definition stored_keys :: "table \<Rightarrow> string list" where
  "stored_keys tbl = List.map_filter row_doi tbl"

definition insert_ignore :: "table \<Rightarrow> row \<Rightarrow> table \<times> nat" where
  "insert_ignore tbl r =
     (case row_doi r of
        None \<Rightarrow> (tbl @ [r], 1)
      | Some k \<Rightarrow> if k \<in> set (stored_keys tbl) then (tbl, 0) else (tbl @ [r], 1))"

text \<open>
  \<^verbatim>\<open>save_paper\<close>. \<open>db_up\<close> is false when reconnecting or executing raises: the handler
  logs and returns \<^verbatim>\<open>False\<close>, and nothing was stored.
\<close>

definition save_paper :: "bool \<Rightarrow> table \<Rightarrow> item \<Rightarrow> string \<Rightarrow> table \<times> bool" where
  "save_paper db_up tbl paper jname =
     (if \<not> db_up then (tbl, False)
      else let (tbl', rowcount) = insert_ignore tbl (row_values paper jname)
           in (tbl', rowcount > 0))"

definition count_key :: "string \<Rightarrow> table \<Rightarrow> nat" where
  "count_key k tbl = length (filter (\<lambda>r. row_doi r = Some k) tbl)"

text \<open>The invariant the unique key keeps: no two rows share a \<^verbatim>\<open>doi\<close> that is not \<^verbatim>\<open>NULL\<close>.\<close>

definition unique_doi :: "table \<Rightarrow> bool" where
  "unique_doi tbl \<longleftrightarrow> distinct (stored_keys tbl)"

text \<open>A Science article as \<^verbatim>\<open>ScienceParser\<close> returns it: the \<^verbatim>\<open>'doi'\<close> is the empty
  string and the address is under \<^verbatim>\<open>'url'\<close>. Both passes vote it relevant.\<close>

definition science_paper :: item where
  "science_paper =
     \<lparr>title = ''A paper'', abstract = [], date = Some 20000, doi = [], link = None,
      item_url = Some ''https://www.science.org/doi/full/10.1126/science.abc1234'',
      authors = [], item_type = [], journal = Some ''Science'', item_id = [],
      item_reason = None, ai_relevant = None\<rparr>"

definition science_vote :: vote where
  "science_vote = \<lparr>vote_id = ''1'', is_ai_related = True, explanation = ''about machine learning''\<rparr>"

text \<open>The article as main\_forward.py hands it to \<^verbatim>\<open>save_paper\<close>: the address is under
  \<^verbatim>\<open>'link'\<close>, not under \<^verbatim>\<open>'url'\<close>.\<close>

definition example_paper_no_key :: item where
  "example_paper_no_key =
     \<lparr>title = ''A paper'', abstract = [], date = Some 20000, doi = [],
      link = Some ''https://www.science.org/doi/full/10.1126/science.abc1234'',
      item_url = None, authors = [], item_type = ''full'', journal = None, item_id = ''1'',
      item_reason = Some ''about machine learning'', ai_relevant = None\<rparr>"

text \<open>The article as main\_backward.py hands it to \<^verbatim>\<open>save_paper\<close>: the address is under
  \<^verbatim>\<open>'link'\<close> and under \<^verbatim>\<open>'url'\<close>.\<close>

definition example_paper_url :: item where
  "example_paper_url =
     \<lparr>title = ''A paper'', abstract = [], date = Some 20000, doi = [],
      link = Some ''https://www.science.org/doi/full/10.1126/science.abc1234'',
      item_url = Some ''https://www.science.org/doi/full/10.1126/science.abc1234'',
      authors = [], item_type = ''incremental'', journal = None, item_id = ''1'',
      item_reason = Some ''about machine learning'', ai_relevant = None\<rparr>"

definition example_paper_keyed :: item where
  "example_paper_keyed = example_paper_no_key\<lparr>doi := ''10.1126/science.abc1234''\<rparr>"

subsection \<open>Properties of saving\<close>

lemma stored_keys_snoc:
  "stored_keys (tbl @ [r]) = stored_keys tbl @ (case row_doi r of None \<Rightarrow> [] | Some k \<Rightarrow> [k])"
  by (simp add: stored_keys_def List.map_filter_def split: option.split)

lemma count_key_stored: "count_key k tbl = length (filter (\<lambda>x. x = k) (stored_keys tbl))"
proof (induction tbl)
  case Nil
  show ?case by (simp add: count_key_def stored_keys_def List.map_filter_def)
next
  case (Cons r tbl)
  then show ?case
    by (cases "row_doi r") (auto simp: count_key_def stored_keys_def List.map_filter_def)
qed

lemma distinct_count: "distinct xs \<Longrightarrow> length (filter (\<lambda>x. x = k) xs) = (if k \<in> set xs then 1 else 0)"
  by (induction xs) auto

lemma count_key_unique:
  "unique_doi tbl \<Longrightarrow> count_key k tbl = (if k \<in> set (stored_keys tbl) then 1 else 0)"
  by (simp add: count_key_stored unique_doi_def distinct_count)

lemma save_paper_stored:
  assumes "identity_key p = Some k" and "k \<in> set (stored_keys tbl)"
  shows "save_paper up tbl p j = (tbl, False)"
  using assms by (simp add: save_paper_def insert_ignore_def row_values_def)

lemma save_paper_fresh:
  assumes "identity_key p = Some k" and "k \<notin> set (stored_keys tbl)"
  shows "save_paper True tbl p j = (tbl @ [row_values p j], True)"
  using assms by (simp add: save_paper_def insert_ignore_def row_values_def)

lemma save_paper_keys:
  assumes "identity_key p = Some k"
  shows "stored_keys (fst (save_paper True tbl p j)) =
         (if k \<in> set (stored_keys tbl) then stored_keys tbl else stored_keys tbl @ [k])"
proof (cases "k \<in> set (stored_keys tbl)")
  case True
  with assms show ?thesis by (simp add: save_paper_stored)
next
  case False
  with assms show ?thesis
    by (simp add: save_paper_fresh stored_keys_snoc row_values_def)
qed

text \<open>
  The identity key: the DOI when it is not blank, otherwise the value under \<^verbatim>\<open>'url'\<close>
  when there is one and it is not blank, otherwise none.
\<close>

lemma identity_key_cases:
  "(\<not> blank (doi p) \<longrightarrow> identity_key p = Some (doi p))
   \<and> (blank (doi p) \<and> item_url p = Some u \<and> \<not> blank u \<longrightarrow> identity_key p = Some u)
   \<and> (blank (doi p) \<and> item_url p = Some u \<and> blank u \<longrightarrow> identity_key p = None)
   \<and> (blank (doi p) \<and> item_url p = None \<longrightarrow> identity_key p = None)"
  by (simp add: identity_key_def url_value_def clean_empty_string_def)

lemma url_fallback:
  assumes "blank (doi p)" and "item_url p = Some u" and "\<not> blank u"
  shows "identity_key p = Some u"
  using assms by (simp add: identity_key_def url_value_def clean_empty_string_def)

text \<open>
  For an item that has an identity key, saving it into a table that respects the
  unique key leaves exactly one row of that key; the call returns \<^verbatim>\<open>True\<close> exactly when
  the key was new; a second save of any item with the same key changes nothing and
  returns \<^verbatim>\<open>False\<close>; rows of other keys are not touched.
\<close>

lemma save_paper_idempotent:
  assumes "identity_key p = Some k" and "identity_key q = Some k" and "unique_doi tbl"
  shows "count_key k (fst (save_paper True tbl p j)) = 1
       \<and> unique_doi (fst (save_paper True tbl p j))
       \<and> (snd (save_paper True tbl p j) \<longleftrightarrow> count_key k tbl = 0)
       \<and> save_paper up (fst (save_paper True tbl p j)) q j' = (fst (save_paper True tbl p j), False)
       \<and> count_key k (fst (save_paper up (fst (save_paper True tbl p j)) q j')) = 1
       \<and> (\<forall>k'. k' \<noteq> k \<longrightarrow> count_key k' (fst (save_paper True tbl p j)) = count_key k' tbl)"
proof -
  let ?t1 = "fst (save_paper True tbl p j)"
  have keys: "stored_keys ?t1 =
      (if k \<in> set (stored_keys tbl) then stored_keys tbl else stored_keys tbl @ [k])"
    using assms(1) by (rule save_paper_keys)
  have u1: "unique_doi ?t1"
    using assms(3) keys by (simp add: unique_doi_def)
  have in1: "k \<in> set (stored_keys ?t1)"
    using keys by simp
  have c1: "count_key k ?t1 = 1"
    using count_key_unique [OF u1, of k] in1 by simp
  have r1: "snd (save_paper True tbl p j) \<longleftrightarrow> count_key k tbl = 0"
    using assms(1,3)
    by (cases "k \<in> set (stored_keys tbl)")
      (simp_all add: save_paper_stored save_paper_fresh count_key_unique)
  have s2: "save_paper up ?t1 q j' = (?t1, False)"
    using assms(2) in1 by (rule save_paper_stored)
  have other: "count_key k' ?t1 = count_key k' tbl" if "k' \<noteq> k" for k'
    using that keys by (simp add: count_key_stored)
  from c1 u1 r1 s2 other show ?thesis by simp
qed

text \<open>An item with a DOI, and an item without a DOI whose address is under \<^verbatim>\<open>'url'\<close>:
  the second save stores nothing and returns \<^verbatim>\<open>False\<close>.\<close>

lemma save_paper_idempotent_doi_example:
  "identity_key example_paper_keyed = Some ''10.1126/science.abc1234''
   \<and> unique_doi []
   \<and> snd (save_paper True [] example_paper_keyed ''Science'')
   \<and> count_key ''10.1126/science.abc1234''
       (fst (save_paper True [] example_paper_keyed ''Science'')) = 1
   \<and> save_paper True (fst (save_paper True [] example_paper_keyed ''Science''))
       example_paper_keyed ''Science'' =
       (fst (save_paper True [] example_paper_keyed ''Science''), False)"
proof -
  have k: "identity_key example_paper_keyed = Some ''10.1126/science.abc1234''"
    by code_simp
  have u: "unique_doi []"
    by (simp add: unique_doi_def stored_keys_def List.map_filter_def)
  have z: "count_key ''10.1126/science.abc1234'' [] = 0"
    by (simp add: count_key_def)
  show ?thesis
    using k u z save_paper_idempotent [OF k k u, of "''Science''" True "''Science''"]
    by simp
qed

lemma save_paper_idempotent_url_example:
  "doi example_paper_url = []
   \<and> identity_key example_paper_url
       = Some ''https://www.science.org/doi/full/10.1126/science.abc1234''
   \<and> snd (save_paper True [] example_paper_url ''Science'')
   \<and> count_key ''https://www.science.org/doi/full/10.1126/science.abc1234''
       (fst (save_paper True [] example_paper_url ''Science'')) = 1
   \<and> save_paper True (fst (save_paper True [] example_paper_url ''Science''))
       example_paper_url ''Science'' =
       (fst (save_paper True [] example_paper_url ''Science''), False)"
proof -
  have d: "doi example_paper_url = []"
    by (simp add: example_paper_url_def)
  have b: "blank (doi example_paper_url)"
    by (simp add: d)
  have l: "item_url example_paper_url
      = Some ''https://www.science.org/doi/full/10.1126/science.abc1234''"
    by (simp add: example_paper_url_def)
  have nb: "\<not> blank ''https://www.science.org/doi/full/10.1126/science.abc1234''"
    by code_simp
  have k: "identity_key example_paper_url
      = Some ''https://www.science.org/doi/full/10.1126/science.abc1234''"
    using b l nb by (rule url_fallback)
  have u: "unique_doi []"
    by (simp add: unique_doi_def stored_keys_def List.map_filter_def)
  have z: "count_key ''https://www.science.org/doi/full/10.1126/science.abc1234'' [] = 0"
    by (simp add: count_key_def)
  show ?thesis
    using d k u z save_paper_idempotent [OF k k u, of "''Science''" True "''Science''"]
    by simp
qed

text \<open>
  C6. The claim asks that two saves of an item with the same identity key, the item's
  address when it has no DOI, store one record, the second call returning false. The
  full crawl (main\_forward.py) breaks this for a Science article. The parser returns
  the article with an empty DOI and its address under \<^verbatim>\<open>'url'\<close>; main\_forward.py copies
  the address to \<^verbatim>\<open>'link'\<close> only, so \<^verbatim>\<open>save_paper\<close>, which reads \<^verbatim>\<open>'url'\<close>, finds no key,
  stores the row with a \<^verbatim>\<open>NULL\<close> \<^verbatim>\<open>doi\<close>, and a second save stores a second row and
  returns \<^verbatim>\<open>True\<close> again. The same article as main\_backward.py builds it has its address
  as key and is stored once.
\<close>

theorem save_twice_without_key_stores_two:
  "saved_forward example_agent [science_vote] [science_vote] [science_paper]
     = [example_paper_no_key]
   \<and> doi example_paper_no_key = [] \<and> item_url example_paper_no_key = None
   \<and> link example_paper_no_key = item_url science_paper
   \<and> identity_key example_paper_no_key = None
   \<and> snd (save_paper True [] example_paper_no_key ''Science'')
   \<and> snd (save_paper True (fst (save_paper True [] example_paper_no_key ''Science''))
        example_paper_no_key ''Science'')
   \<and> length (fst (save_paper True (fst (save_paper True [] example_paper_no_key ''Science''))
        example_paper_no_key ''Science'')) = 2
   \<and> saved_incremental example_agent [science_vote] [science_vote] [science_paper]
       = Inr [example_paper_url]
   \<and> identity_key example_paper_url = item_url science_paper
   \<and> snd (save_paper True [] example_paper_url ''Science'')
   \<and> \<not> snd (save_paper True (fst (save_paper True [] example_paper_url ''Science''))
        example_paper_url ''Science'')
   \<and> length (fst (save_paper True (fst (save_paper True [] example_paper_url ''Science''))
        example_paper_url ''Science'')) = 1"
  by code_simp

subsection \<open>The last update time and the incremental window\<close>

text \<open>
  A Python time value is a \<^verbatim>\<open>date\<close> (a day number) or a \<^verbatim>\<open>datetime\<close> (microseconds).
  \<^verbatim>\<open>SELECT MAX(pub_date)\<close> skips \<^verbatim>\<open>NULL\<close> and is \<^verbatim>\<open>NULL\<close> when nothing is left.
\<close>

datatype pytime = Date int | DateTime int

definition one_week :: int where
  "one_week = 7 * 24 * 3600 * 1000000"

fun max_date :: "int option list \<Rightarrow> int option" where
  "max_date [] = None"
| "max_date (None # ds) = max_date ds"
| "max_date (Some d # ds) = (case max_date ds of None \<Rightarrow> Some d | Some m \<Rightarrow> Some (max d m))"

text \<open>The rows the query reads: those of the sub-journal when a name is given
  (\<^verbatim>\<open>if journal_name:\<close>), the whole table otherwise.\<close>

definition rows_of :: "string option \<Rightarrow> table \<Rightarrow> table" where
  "rows_of jname tbl =
     (case jname of
        None \<Rightarrow> tbl
      | Some n \<Rightarrow> if n = [] then tbl else filter (\<lambda>r. row_journal r = n) tbl)"

text \<open>
  \<^verbatim>\<open>get_last_update_time\<close>, at time \<open>now\<close>. Both the empty result and the exception
  handler (\<open>db_up\<close> false) return \<^verbatim>\<open>datetime.now() - timedelta(weeks=1)\<close>.
\<close>

definition get_last_update_time :: "bool \<Rightarrow> int \<Rightarrow> table \<Rightarrow> string option \<Rightarrow> pytime" where
  "get_last_update_time db_up now tbl jname =
     (if \<not> db_up then DateTime (now - one_week)
      else case max_date (map row_pub_date (rows_of jname tbl)) of
             Some d \<Rightarrow> Date d
           | None \<Rightarrow> DateTime (now - one_week))"

text \<open>
  The window \<^verbatim>\<open>run_incremental_crawl\<close> gives a sub-journal: the range given on the
  command line on the first run, otherwise from the last update time to now (\<open>now'\<close>
  is the later reading of the clock).
\<close>

record crawler_system =
  first_run :: bool
  initial_start_date :: "pytime option"
  initial_end_date :: "pytime option"

definition crawl_window ::
  "crawler_system \<Rightarrow> bool \<Rightarrow> int \<Rightarrow> int \<Rightarrow> table \<Rightarrow> string \<Rightarrow> pytime \<times> pytime" where
  "crawl_window sys db_up now now' tbl jname =
     (case (first_run sys, initial_start_date sys, initial_end_date sys) of
        (True, Some s, Some e) \<Rightarrow> (s, e)
      | _ \<Rightarrow> (get_last_update_time db_up now tbl (Some jname), DateTime now'))"

definition example_table :: table where
  "example_table =
     [\<lparr>row_title = ''a'', row_abstract = None, row_doi = Some ''10.1/a'', row_pub_date = Some 20000,
       row_journal = ''Nature'', row_url = None, row_authors = None, row_reason = None,
       row_type = ''incremental''\<rparr>,
      \<lparr>row_title = ''b'', row_abstract = None, row_doi = Some ''10.1/b'', row_pub_date = Some 20010,
       row_journal = ''Nature'', row_url = None, row_authors = None, row_reason = None,
       row_type = ''incremental''\<rparr>,
      \<lparr>row_title = ''c'', row_abstract = None, row_doi = Some ''10.1/c'', row_pub_date = None,
       row_journal = ''Nature Energy'', row_url = None, row_authors = None, row_reason = None,
       row_type = ''incremental''\<rparr>]"

lemma max_date_None: "max_date ds = None \<longleftrightarrow> (\<forall>d \<in> set ds. d = None)"
  by (induction ds rule: max_date.induct) (auto split: option.splits)

lemma max_date_Some:
  "max_date ds = Some m \<Longrightarrow> Some m \<in> set ds \<and> (\<forall>d. Some d \<in> set ds \<longrightarrow> d \<le> m)"
proof (induction ds arbitrary: m rule: max_date.induct)
  case 1
  then show ?case by simp
next
  case (2 ds)
  then show ?case by simp
next
  case (3 d ds)
  show ?case
  proof (cases "max_date ds")
    case None
    with "3.prems" have "m = d" by simp
    moreover from None have "\<forall>x \<in> set ds. x = None" by (simp add: max_date_None)
    ultimately show ?thesis by auto
  next
    case (Some m')
    with "3.prems" have m: "m = max d m'" by simp
    from "3.IH" [OF Some] have "Some m' \<in> set ds" "\<forall>x. Some x \<in> set ds \<longrightarrow> x \<le> m'" by simp_all
    with m show ?thesis by (auto simp: max_def)
  qed
qed

text \<open>
  C7. For a named sub-journal without a stored publication date the last update time is
  one week before now. With stored dates it is the latest of them. Unless the run is
  the first one with a range given on the command line, the window of the run starts at
  the value \<^verbatim>\<open>get_last_update_time\<close> returned.
\<close>

theorem last_update_time_default:
  assumes "jname \<noteq> []"
  shows "((\<forall>r \<in> set tbl. row_journal r = jname \<longrightarrow> row_pub_date r = None) \<longrightarrow>
            get_last_update_time db_up now tbl (Some jname) = DateTime (now - 7 * 24 * 3600 * 1000000))
       \<and> (db_up \<and> (\<exists>r \<in> set tbl. row_journal r = jname \<and> row_pub_date r \<noteq> None) \<longrightarrow>
            (\<exists>m. get_last_update_time db_up now tbl (Some jname) = Date m
               \<and> (\<exists>r \<in> set tbl. row_journal r = jname \<and> row_pub_date r = Some m)
               \<and> (\<forall>r \<in> set tbl. \<forall>d. row_journal r = jname \<and> row_pub_date r = Some d \<longrightarrow> d \<le> m)))
       \<and> (\<not> (first_run sys \<and> initial_start_date sys \<noteq> None \<and> initial_end_date sys \<noteq> None) \<longrightarrow>
            fst (crawl_window sys db_up now now' tbl jname) =
            get_last_update_time db_up now tbl (Some jname))"
proof -
  let ?ds = "map row_pub_date (rows_of (Some jname) tbl)"
  have rows: "set (rows_of (Some jname) tbl) = {r \<in> set tbl. row_journal r = jname}"
    using assms by (auto simp: rows_of_def)
  have empty: "get_last_update_time db_up now tbl (Some jname) = DateTime (now - 7 * 24 * 3600 * 1000000)"
    if "\<forall>r \<in> set tbl. row_journal r = jname \<longrightarrow> row_pub_date r = None"
  proof -
    from that rows have "\<forall>d \<in> set ?ds. d = None" by auto
    then have "max_date ?ds = None" using max_date_None [of ?ds] by blast
    then show ?thesis by (simp add: get_last_update_time_def one_week_def)
  qed
  have latest: "\<exists>m. get_last_update_time db_up now tbl (Some jname) = Date m
      \<and> (\<exists>r \<in> set tbl. row_journal r = jname \<and> row_pub_date r = Some m)
      \<and> (\<forall>r \<in> set tbl. \<forall>d. row_journal r = jname \<and> row_pub_date r = Some d \<longrightarrow> d \<le> m)"
    if "db_up" "\<exists>r \<in> set tbl. row_journal r = jname \<and> row_pub_date r \<noteq> None"
  proof -
    from that(2) rows have "\<not> (\<forall>d \<in> set ?ds. d = None)" by auto
    then have "max_date ?ds \<noteq> None" using max_date_None [of ?ds] by blast
    then obtain m where m: "max_date ?ds = Some m" by auto
    from max_date_Some [OF m] have in_ds: "Some m \<in> set ?ds"
      and top: "\<forall>d. Some d \<in> set ?ds \<longrightarrow> d \<le> m" by simp_all
    from in_ds rows have "\<exists>r \<in> set tbl. row_journal r = jname \<and> row_pub_date r = Some m"
      by auto
    moreover from top rows
    have "\<forall>r \<in> set tbl. \<forall>d. row_journal r = jname \<and> row_pub_date r = Some d \<longrightarrow> d \<le> m"
      by force
    moreover from m that(1) have "get_last_update_time db_up now tbl (Some jname) = Date m"
      by (simp add: get_last_update_time_def)
    ultimately show ?thesis by blast
  qed
  have window: "fst (crawl_window sys db_up now now' tbl jname) =
      get_last_update_time db_up now tbl (Some jname)"
    if "\<not> (first_run sys \<and> initial_start_date sys \<noteq> None \<and> initial_end_date sys \<noteq> None)"
    using that by (auto simp: crawl_window_def split: option.split bool.split)
  from empty latest window show ?thesis by blast
qed

theorem last_update_time_default_witness:
  "get_last_update_time True 1700000000000000 example_table (Some ''Nature Energy'') =
     DateTime 1699395200000000
   \<and> get_last_update_time True 1700000000000000 example_table (Some ''Nature'') = Date 20010
   \<and> crawl_window \<lparr>first_run = False, initial_start_date = None, initial_end_date = None\<rparr>
       True 1700000000000000 1700000000500000 example_table ''Nature Energy'' =
     (DateTime 1699395200000000, DateTime 1700000000500000)"
proof -
  have n: "''Nature Energy'' \<noteq> []" by simp
  have e: "\<forall>r \<in> set example_table. row_journal r = ''Nature Energy'' \<longrightarrow> row_pub_date r = None"
    by (simp add: example_table_def)
  have i: "\<not> (first_run \<lparr>first_run = False, initial_start_date = None, initial_end_date = None\<rparr>
      \<and> initial_start_date \<lparr>first_run = False, initial_start_date = None, initial_end_date = None\<rparr> \<noteq> None
      \<and> initial_end_date \<lparr>first_run = False, initial_start_date = None, initial_end_date = None\<rparr> \<noteq> None)"
    by simp
  have s: "snd (crawl_window \<lparr>first_run = False, initial_start_date = None, initial_end_date = None\<rparr>
       True 1700000000000000 1700000000500000 example_table ''Nature Energy'') = DateTime 1700000000500000"
    by (simp add: crawl_window_def)
  have d: "get_last_update_time True 1700000000000000 example_table (Some ''Nature'') = Date 20010"
    by code_simp
  note w = last_update_time_default [OF n, where ?tbl = example_table and ?db_up = True
      and ?now = 1700000000000000 and ?now' = 1700000000500000
      and ?sys = "\<lparr>first_run = False, initial_start_date = None, initial_end_date = None\<rparr>"]
  from w e have a: "get_last_update_time True 1700000000000000 example_table (Some ''Nature Energy'') =
      DateTime (1700000000000000 - 7 * 24 * 3600 * 1000000)"
    by blast
  from w i have b: "fst (crawl_window \<lparr>first_run = False, initial_start_date = None, initial_end_date = None\<rparr>
       True 1700000000000000 1700000000500000 example_table ''Nature Energy'') =
      get_last_update_time True 1700000000000000 example_table (Some ''Nature Energy'')"
    by blast
  from a b s d show ?thesis
    by (simp add: prod_eq_iff)
qed

section \<open>Fetching a page with retries (BaseParser.get\_page\_with\_retry, parser.py)\<close>

text \<open>
  What the function does to the outside world is recorded as a trace of events: setting
  the \<^verbatim>\<open>User-Agent\<close> header, sleeping, calling \<^verbatim>\<open>session.get\<close>, the requests that call
  sends on the wire, and loading the page in the browser. Python's floats are taken as
  real numbers.

  The session is the one \<^verbatim>\<open>BaseParser.__init__\<close> builds: it carries an adapter with
  \<^verbatim>\<open>Retry(total=8, backoff_factor=5, status_forcelist=[403, 429, 500, 502, 503, 504])\<close>.
  With it a \<^verbatim>\<open>session.get\<close> call does not return an answer whose status is in the list:
  the adapter sends the request again, up to 8 more times, and when the last of them
  is answered in the same way the call raises. A request that gets no answer (no
  connection, or the timeout) is repeated likewise. So a call sends between 1 and 9
  requests, and it returns a response only with a status outside the list. The pauses
  the adapter makes between its own requests are not part of the trace.

  The environment gives what the function cannot decide: the pool of user agents the
  parser has (\<open>None\<close> when it has none of the three attributes), the index
  \<^verbatim>\<open>random.choice\<close> picks at each attempt, the value of \<^verbatim>\<open>random.random()\<close> behind each
  \<^verbatim>\<open>random.uniform\<close>, what the server does to request \<open>i\<close> of the call of attempt \<open>k\<close>,
  whether a browser session is there
  (\<^verbatim>\<open>self.use_selenium and hasattr(self, 'driver') and self.driver\<close>), and what the
  browser does. Of a loaded page the function only looks at its length and at whether
  it contains \<^verbatim>\<open>"403"\<close> or \<^verbatim>\<open>"Forbidden"\<close>.
\<close>

datatype wire = Answer nat | NoAnswer

datatype reply = Status nat | Raised

record browser_page =
  page_length :: nat
  mentions_403 :: bool
  mentions_forbidden :: bool

datatype browser_reply = BrowserRaised | Loaded browser_page

datatype event = SetUserAgent string | Sleep real | Get nat | Request nat nat | BrowserGet


record fetch_env =
  user_agent_pool :: "string list option"
  pick :: "nat \<Rightarrow> nat"
  random_delay :: "nat \<Rightarrow> real"
  random_wait :: "nat \<Rightarrow> real"
  server :: "nat \<Rightarrow> nat \<Rightarrow> wire"
  use_selenium :: bool
  browser :: browser_reply

definition status_forcelist :: "nat list" where
  "status_forcelist = [403, 429, 500, 502, 503, 504]"

definition retry_total :: nat where
  "retry_total = 8"

text \<open>
  The adapter's loop, with \<open>left\<close> the repeats it may still make and \<open>i\<close> the number of
  requests already sent: the reply the call ends with, and the number of requests sent.
\<close>

fun send_with_retries :: "(nat \<Rightarrow> wire) \<Rightarrow> nat \<Rightarrow> nat \<Rightarrow> reply \<times> nat" where
  "send_with_retries srv 0 i =
     (case srv i of
        Answer code \<Rightarrow> if code \<in> set status_forcelist then (Raised, Suc i) else (Status code, Suc i)
      | NoAnswer \<Rightarrow> (Raised, Suc i))"
| "send_with_retries srv (Suc left) i =
     (case srv i of
        Answer code \<Rightarrow> if code \<in> set status_forcelist then send_with_retries srv left (Suc i)
                       else (Status code, Suc i)
      | NoAnswer \<Rightarrow> send_with_retries srv left (Suc i))"

text \<open>\<^verbatim>\<open>self.session.get(url, timeout=timeout)\<close> at attempt \<open>k\<close>.\<close>

definition session_get :: "fetch_env \<Rightarrow> nat \<Rightarrow> reply \<times> event list" where
  "session_get E k =
     (case send_with_retries (server E k) retry_total 0 of
        (r, sent) \<Rightarrow> (r, Get k # map (Request k) [0..<sent]))"

text \<open>\<^verbatim>\<open>random.uniform(a, b)\<close> is \<^verbatim>\<open>a + (b - a) * random()\<close>.\<close>

definition uniform :: "real \<Rightarrow> real \<Rightarrow> real \<Rightarrow> real" where
  "uniform a b u = a + (b - a) * u"

definition pre_delay :: "fetch_env \<Rightarrow> nat \<Rightarrow> real" where
  "pre_delay E k = uniform 5 15 (random_delay E k) * real (k + 1)"

definition wait_403 :: "fetch_env \<Rightarrow> nat \<Rightarrow> real" where
  "wait_403 E k = uniform 10 20 (random_wait E k)"

definition wait_error :: "fetch_env \<Rightarrow> nat \<Rightarrow> real" where
  "wait_error E k = uniform 5 12 (random_wait E k)"

text \<open>
  One pass of \<^verbatim>\<open>for attempt in range(max_retries)\<close>: the events of attempt \<open>k\<close> and
  whether it returned the response. Choosing from an empty pool raises before anything
  is sent, which the handler treats like a failed request. The branch for status 403
  is there as the source has it; with this session no call returns that status
  (\<open>session_get_status\<close> below).
\<close>

definition before_get :: "fetch_env \<Rightarrow> nat \<Rightarrow> event list" where
  "before_get E k =
     (case user_agent_pool E of
        None \<Rightarrow> []
      | Some pool \<Rightarrow> [SetUserAgent (pool ! (pick E k mod length pool))])
     @ (if 0 < k then [Sleep (pre_delay E k)] else [])"

definition attempt :: "fetch_env \<Rightarrow> nat \<Rightarrow> nat \<Rightarrow> event list \<times> bool" where
  "attempt E max_retries k =
     (if user_agent_pool E = Some []
      then (if Suc k < max_retries then [Sleep (wait_error E k)] else [], False)
      else case session_get E k of
             (Status code, sent) \<Rightarrow>
               if code = 200 then (before_get E k @ sent, True)
               else if code = 403
               then (before_get E k @ sent
                       @ (if Suc k < max_retries then [Sleep (wait_403 E k)] else []), False)
               else (before_get E k @ sent, False)
           | (Raised, sent) \<Rightarrow>
               (before_get E k @ sent
                  @ (if Suc k < max_retries then [Sleep (wait_error E k)] else []), False))"

fun run_attempts :: "fetch_env \<Rightarrow> nat \<Rightarrow> nat list \<Rightarrow> nat option \<times> event list" where
  "run_attempts E max_retries [] = (None, [])"
| "run_attempts E max_retries (k # ks) =
     (case attempt E max_retries k of
        (evs, True) \<Rightarrow> (Some k, evs)
      | (evs, False) \<Rightarrow>
          (case run_attempts E max_retries ks of (r, evs') \<Rightarrow> (r, evs @ evs')))"










subsection \<open>Properties of the fetch\<close>



text \<open>The adapter hands back no status of its list, and sends at most 9 requests.\<close>

lemma send_with_retries_status:
  "fst (send_with_retries srv left i) = Status code \<Longrightarrow> code \<notin> set status_forcelist"
  by (induction srv left i rule: send_with_retries.induct) (auto split: wire.splits if_splits)



lemma session_get_status:
  "fst (session_get E k) = Status code \<Longrightarrow> code \<notin> set status_forcelist"
  using send_with_retries_status [of "server E k" retry_total 0 code]
  by (simp add: session_get_def split: prod.splits)

lemma session_get_never_403: "fst (session_get E k) \<noteq> Status 403"
  using session_get_status [of E k 403] by (auto simp: status_forcelist_def)
















text \<open>
  What an attempt does when the call raises, which is what a server that refuses with
  403 leads to: the pause is the one of the handler, between 5 and 12 seconds.
\<close>

lemma attempt_raised:
  assumes "fst (session_get E k) = Raised" and "user_agent_pool E \<noteq> Some []"
  shows "fst (attempt E n k) =
           before_get E k @ snd (session_get E k)
             @ (if Suc k < n then [Sleep (wait_error E k)] else [])"
    and "\<not> snd (attempt E n k)"
  using assms by (cases "session_get E k"; simp add: attempt_def)+


lemma run_attempts_Cons:
  "run_attempts E n (k # ks) =
     (if snd (attempt E n k) then (Some k, fst (attempt E n k))
      else (fst (run_attempts E n ks), fst (attempt E n k) @ snd (run_attempts E n ks)))"
  by (cases "attempt E n k"; cases "run_attempts E n ks") (auto split: bool.split)


lemma run_attempts_Some:
  "fst (run_attempts E n ks) = Some k \<Longrightarrow> k \<in> set ks \<and> snd (attempt E n k)"
  by (induction ks) (auto simp: run_attempts_Cons simp del: run_attempts.simps(2) split: if_splits)



















end
